theory Spec2Isabelle
  imports Complex_Main "HOL-Library.AList"
begin

unbundle bit_operations_syntax

section \<open>Data model of the preference-based recommender\<close>

text \<open>
  The development follows \<^verbatim>\<open>kiprec/PreferenceBasedRecommender.py\<close>.
  Python dictionaries whose iteration order is observable are association lists
  (Python keeps insertion order); a lookup \<^verbatim>\<open>d[k]\<close> is \<open>map_of d k\<close> and a
  missing key is the error \<open>KeyError\<close>. In the functions of the first sections the
  query-time Python floats are idealised as reals (rounding, overflow and non-finite
  values are outside that reading) and attribute values are scalars, modelled as strings;
  they serve to evaluate the code on inputs where this reading is exact or the outcome
  does not depend on it. The section on the interpreter's numbers gives the normalisation
  and the choice of the split for any arithmetic and for list-valued attributes.
\<close>

datatype error =
    ValueError
  | KeyError string
  | IndexError
  | ZeroDivisionError
  | TypeError

type_synonym 'v dict = "(string \<times> 'v) list"

text \<open>An entry of \<^verbatim>\<open>model['courses']\<close> (the fields that a query reads).\<close>

record course =
  course_id :: int
  name :: string
  Sim :: "real list"
  features :: "string dict"
  count :: nat

text \<open>An entry of \<^verbatim>\<open>model['features']\<close>: an attribute and its known values.\<close>

record feature =
  feature_name :: string
  feature_values :: "string list"

record model =
  meta_categories :: "string list"
  model_features :: "feature list"
  courses :: "course list"

text \<open>A resolved filter \<^verbatim>\<open>{'name': ..., 'value': ...}\<close>.\<close>

record filter_entry =
  filter_name :: string
  filter_value :: string

text \<open>The dictionary \<^verbatim>\<open>crs\<close> built for every ranked course.\<close>

record crs =
  crs_course_id :: int
  crs_name :: string
  crs_features :: "string dict"
  sim :: real
  score :: real

section \<open>Filtering: \<^verbatim>\<open>__filter_courses__\<close>\<close>

text \<open>
  One pass of the comprehension
  \<^verbatim>\<open>[course for course in courses if course['features'][n] == v]\<close>;
  the subscript raises \<open>KeyError\<close> at the first course without the attribute.
\<close>

fun select_courses :: "string \<Rightarrow> string \<Rightarrow> course list \<Rightarrow> error + course list" where
  "select_courses n v [] = Inr []"
| "select_courses n v (c # cs) =
     (case map_of (features c) n of
        None \<Rightarrow> Inl (KeyError n)
      | Some x \<Rightarrow>
          (case select_courses n v cs of
             Inl e \<Rightarrow> Inl e
           | Inr r \<Rightarrow> Inr (if x = v then c # r else r)))"

fun filter_courses :: "course list \<Rightarrow> filter_entry list \<Rightarrow> error + course list" where
  "filter_courses cs [] = Inr cs"
| "filter_courses cs (f # fs) =
     (case select_courses (filter_name f) (filter_value f) cs of
        Inl e \<Rightarrow> Inl e
      | Inr cs' \<Rightarrow> filter_courses cs' fs)"

section \<open>Ranking: \<^verbatim>\<open>__rank_courses__\<close>\<close>

text \<open>
  \<^verbatim>\<open>normalization = sum(preferences.values())\<close>, replaced by
  \<^verbatim>\<open>1/len(preferences)\<close> when it is below \<^verbatim>\<open>1e-3\<close>; the division
  raises \<open>ZeroDivisionError\<close> for an empty dictionary.
\<close>

definition normalization_of :: "real dict \<Rightarrow> error + real" where
  "normalization_of preferences =
     (let normalization = sum_list (map snd preferences) in
      if normalization < 1 / 1000 then
        (if length preferences = 0 then Inl ZeroDivisionError
         else Inr (1 / real (length preferences)))
      else Inr normalization)"

text \<open>
  \<^verbatim>\<open>normalized_preferences = preferences\<close> binds a second name to the caller's
  dictionary, and the comprehension
  \<^verbatim>\<open>[normalized_preferences.update({key: value / normalization}) for key, value in ...]\<close>
  overwrites every value of that dictionary in place. The divisor is never zero
  (lemma \<open>normalization_of_pos\<close> below), so the division cannot raise.
\<close>

definition update_preferences :: "real \<Rightarrow> real dict \<Rightarrow> real dict" where
  "update_preferences normalization preferences =
     map (\<lambda>(key, value). (key, value / normalization)) preferences"

text \<open>
  \<^verbatim>\<open>{key: normalized_preferences[key] for key in self.model['meta_categories']}\<close>:
  a new dictionary, built key by key; a repeated key keeps its first position, a
  missing key raises \<open>KeyError\<close>.
\<close>

fun reorder_preferences :: "string list \<Rightarrow> 'v dict \<Rightarrow> 'v dict \<Rightarrow> error + 'v dict" where
  "reorder_preferences [] d acc = Inr acc"
| "reorder_preferences (key # keys) d acc =
     (case map_of d key of
        None \<Rightarrow> Inl (KeyError key)
      | Some v \<Rightarrow> reorder_preferences keys d (AList.update key v acc))"

text \<open>
  The normalisation part of \<^verbatim>\<open>__rank_courses__\<close>: the result, and the caller's
  dictionary as the call leaves it.
\<close>

definition normalize_preferences ::
  "string list \<Rightarrow> real dict \<Rightarrow> (error + real dict) \<times> real dict" where
  "normalize_preferences metas preferences =
     (case normalization_of preferences of
        Inl e \<Rightarrow> (Inl e, preferences)
      | Inr normalization \<Rightarrow>
          (let updated = update_preferences normalization preferences
           in (reorder_preferences metas updated [], updated)))"

text \<open>
  \<^verbatim>\<open>for i in range(len(sim)): crs['sim'] += sim[i] * list(normalized_preferences.values())[i]\<close>;
  the subscript raises \<open>IndexError\<close> when the weights run out first.
\<close>

fun accumulate_sim :: "real list \<Rightarrow> real list \<Rightarrow> real \<Rightarrow> error + real" where
  "accumulate_sim [] ws acc = Inr acc"
| "accumulate_sim (s # ss) [] acc = Inl IndexError"
| "accumulate_sim (s # ss) (w # ws) acc = accumulate_sim ss ws (acc + s * w)"

definition LAMBDA :: real where
  "LAMBDA = ln 10 * 10"

definition unknown_crs :: "course \<Rightarrow> crs" where
  "unknown_crs c =
     \<lparr>crs_course_id = course_id c, crs_name = name c, crs_features = features c,
      sim = 0, score = 0\<rparr>"

text \<open>The body of the loop over the courses to rank.\<close>

definition rank_course :: "model \<Rightarrow> real list \<Rightarrow> course \<Rightarrow> error + crs" where
  "rank_course m weights c =
     (if course_id c \<notin> set (map course_id (courses m)) then Inr (unknown_crs c)
      else
        (case find (\<lambda>d. course_id d = course_id c) (courses m) of
           None \<Rightarrow> Inl ValueError
         | Some mc \<Rightarrow>
             (case accumulate_sim (Sim mc) weights 0 of
                Inl e \<Rightarrow> Inl e
              | Inr s \<Rightarrow>
                  Inr ((unknown_crs c)
                         \<lparr>sim := s, score := LAMBDA * s + ln (real (count mc) + 1)\<rparr>))))"

fun rank_loop :: "model \<Rightarrow> real list \<Rightarrow> course list \<Rightarrow> error + crs list" where
  "rank_loop m weights [] = Inr []"
| "rank_loop m weights (c # cs) =
     (case rank_course m weights c of
        Inl e \<Rightarrow> Inl e
      | Inr k \<Rightarrow>
          (case rank_loop m weights cs of
             Inl e \<Rightarrow> Inl e
           | Inr ks \<Rightarrow> Inr (k # ks)))"

text \<open>
  \<^verbatim>\<open>sorted(ranked_courses, key=lambda k: k['score'], reverse=True)\<close> is a stable
  sort in descending order of the score: the stable ascending sort on the negated score.
\<close>

definition sort_by_score :: "crs list \<Rightarrow> crs list" where
  "sort_by_score ks = sort_key (\<lambda>k. - score k) ks"

text \<open>
  \<^verbatim>\<open>__rank_courses__\<close>: the ranked courses or the exception, paired with the
  caller's preference dictionary after the call.
\<close>

definition rank_courses ::
  "model \<Rightarrow> course list \<Rightarrow> real dict \<Rightarrow> (error + crs list) \<times> real dict" where
  "rank_courses m cs preferences =
     (case normalize_preferences (meta_categories m) preferences of
        (Inl e, preferences') \<Rightarrow> (Inl e, preferences')
      | (Inr normalized, preferences') \<Rightarrow>
          (case rank_loop m (map snd normalized) cs of
             Inl e \<Rightarrow> (Inl e, preferences')
           | Inr ranked \<Rightarrow> (Inr (sort_by_score ranked), preferences')))"

section \<open>Choosing the next attribute: \<^verbatim>\<open>__decision_tree_split__\<close>\<close>

text \<open>The loop that counts the courses per value of one attribute.\<close>

fun count_values :: "string \<Rightarrow> crs list \<Rightarrow> int dict \<Rightarrow> error + int dict" where
  "count_values n [] counts = Inr counts"
| "count_values n (c # cs) counts =
     (case map_of (crs_features c) n of
        None \<Rightarrow> Inl (KeyError n)
      | Some v \<Rightarrow>
          (case map_of counts v of
             None \<Rightarrow> count_values n cs (AList.update v 1 counts)
           | Some k \<Rightarrow> count_values n cs (AList.update v (k + 1) counts)))"

text \<open>
  The test \<^verbatim>\<open>counts[value] > 0 & counts[value] < len(courses)\<close>. In Python
  \<^verbatim>\<open>&\<close> binds tighter than the comparisons, so the expression is the chain
  \<^verbatim>\<open>counts[value] > (0 & counts[value]) < len(courses)\<close>, that is
  \<open>k > (0 AND k) \<and> (0 AND k) < len\<close>.
\<close>

definition non_trivial_choice :: "int dict \<Rightarrow> nat \<Rightarrow> bool" where
  "non_trivial_choice counts len =
     list_ex (\<lambda>(v, k). k > (0 AND k) \<and> (0 AND k) < int len) counts"

text \<open>
  \<^verbatim>\<open>sum([1 for c in courses if c['features'][n] == value and c['score'] > score])\<close>
\<close>

fun course_number :: "string \<Rightarrow> string \<Rightarrow> real \<Rightarrow> crs list \<Rightarrow> error + int" where
  "course_number n v s [] = Inr 0"
| "course_number n v s (c # cs) =
     (case map_of (crs_features c) n of
        None \<Rightarrow> Inl (KeyError n)
      | Some x \<Rightarrow>
          (case course_number n v s cs of
             Inl e \<Rightarrow> Inl e
           | Inr k \<Rightarrow> Inr ((if x = v \<and> score c > s then 1 else 0) + k)))"

text \<open>
  The loop accumulating \<^verbatim>\<open>loss += score*course_number\<close>
  (\<^verbatim>\<open>min_course_number\<close> is written but never read, and is left out).
\<close>

fun loss_loop :: "string \<Rightarrow> crs list \<Rightarrow> crs list \<Rightarrow> real \<Rightarrow> error + real" where
  "loss_loop n allc [] loss = Inr loss"
| "loss_loop n allc (c # cs) loss =
     (case map_of (crs_features c) n of
        None \<Rightarrow> Inl (KeyError n)
      | Some v \<Rightarrow>
          (case course_number n v (score c) allc of
             Inl e \<Rightarrow> Inl e
           | Inr k \<Rightarrow> loss_loop n allc cs (loss + score c * real_of_int k)))"

text \<open>
  One iteration of the loop over the candidates, up to the loss of the candidate:
  \<open>None\<close> when the candidate is skipped (\<^verbatim>\<open>continue\<close>).
\<close>

definition feature_loss :: "crs list \<Rightarrow> real \<Rightarrow> string \<Rightarrow> error + real option" where
  "feature_loss cs sum_scores n =
     (case count_values n cs [] of
        Inl e \<Rightarrow> Inl e
      | Inr counts \<Rightarrow>
          if \<not> non_trivial_choice counts (length cs) then Inr None
          else
            (case loss_loop n cs cs 0 of
               Inl e \<Rightarrow> Inl e
             | Inr loss \<Rightarrow> Inr (Some (loss / sum_scores))))"

text \<open>\<^verbatim>\<open>loss < min_loss\<close>, where \<open>None\<close> stands for \<^verbatim>\<open>float('inf')\<close>.\<close>

fun below_min :: "real \<Rightarrow> real option \<Rightarrow> bool" where
  "below_min loss None = True"
| "below_min loss (Some m) = (loss < m)"

fun split_loop ::
  "crs list \<Rightarrow> real \<Rightarrow> string list \<Rightarrow> nat \<Rightarrow> int \<Rightarrow> real option \<Rightarrow> error + int" where
  "split_loop cs sum_scores [] j min_j min_loss = Inr min_j"
| "split_loop cs sum_scores (n # ns) j min_j min_loss =
     (case feature_loss cs sum_scores n of
        Inl e \<Rightarrow> Inl e
      | Inr None \<Rightarrow> split_loop cs sum_scores ns (Suc j) min_j min_loss
      | Inr (Some loss) \<Rightarrow>
          if below_min loss min_loss
          then split_loop cs sum_scores ns (Suc j) (int j) (Some loss)
          else split_loop cs sum_scores ns (Suc j) min_j min_loss)"

definition decision_tree_split :: "crs list \<Rightarrow> string list \<Rightarrow> error + int" where
  "decision_tree_split cs remaining_features =
     (let sum_scores = sum_list (map score cs) in
      if sum_scores < 1 / 1000 then Inr (- 1)
      else split_loop cs sum_scores remaining_features 0 (- 1) None)"

section \<open>A query: \<^verbatim>\<open>recommend\<close>\<close>

text \<open>
  The loop over \<^verbatim>\<open>self.model['features']\<close> that sorts every attribute of the
  schema into the honoured filters or the remaining features.
\<close>

fun resolve_filters ::
  "feature list \<Rightarrow> (string \<rightharpoonup> string) \<Rightarrow> filter_entry list \<times> string list" where
  "resolve_filters [] af = ([], [])"
| "resolve_filters (f # fs) af =
     (let (filters, remaining_features) = resolve_filters fs af in
      case af (feature_name f) of
        None \<Rightarrow> (filters, feature_name f # remaining_features)
      | Some v \<Rightarrow>
          if v \<in> set (feature_values f)
          then (\<lparr>filter_name = feature_name f, filter_value = v\<rparr> # filters,
                remaining_features)
          else (filters, feature_name f # remaining_features))"

text \<open>
  The objects a call can reach: the recommender's \<^verbatim>\<open>self.model\<close> and the
  preference dictionary passed by the caller.
\<close>

record py_state =
  self_model :: "model option"
  caller_preferences :: "real dict"

type_synonym recommendation = "filter_entry list \<times> string list \<times> crs list \<times> int"

definition recommend ::
  "py_state \<Rightarrow> (string \<rightharpoonup> string) option \<Rightarrow> (error + recommendation) \<times> py_state" where
  "recommend st active_filters =
     (case self_model st of
        None \<Rightarrow> (Inl ValueError, st)
      | Some m \<Rightarrow>
          (let (filters, remaining_features) =
                 (case active_filters of
                    Some af \<Rightarrow> resolve_filters (model_features m) af
                  | None \<Rightarrow> ([], map feature_name (model_features m)))
           in case filter_courses (courses m) filters of
                Inl e \<Rightarrow> (Inl e, st)
              | Inr filtered \<Rightarrow>
                  (case rank_courses m filtered (caller_preferences st) of
                     (Inl e, preferences') \<Rightarrow>
                       (Inl e, st\<lparr>caller_preferences := preferences'\<rparr>)
                   | (Inr ranked, preferences') \<Rightarrow>
                       (case decision_tree_split ranked remaining_features of
                          Inl e \<Rightarrow> (Inl e, st\<lparr>caller_preferences := preferences'\<rparr>)
                        | Inr split_index \<Rightarrow>
                            (Inr (filters, remaining_features, ranked, split_index),
                             st\<lparr>caller_preferences := preferences'\<rparr>)))))"

section \<open>Training: rescaling the similarity channels\<close>

text \<open>
  The channels are numpy arrays. Unlike Python's own floats, numpy arithmetic does not
  raise on a division by zero: it yields an infinity or NaN. An array element is
  therefore a real, an infinity or NaN (signed zeros and rounding are not modelled).
\<close>

datatype npfloat = Fin real | PInf | NInf | NaN

fun fsub :: "npfloat \<Rightarrow> npfloat \<Rightarrow> npfloat" where
  "fsub NaN y = NaN"
| "fsub x NaN = NaN"
| "fsub (Fin a) (Fin b) = Fin (a - b)"
| "fsub (Fin a) PInf = NInf"
| "fsub (Fin a) NInf = PInf"
| "fsub PInf PInf = NaN"
| "fsub PInf y = PInf"
| "fsub NInf NInf = NaN"
| "fsub NInf y = NInf"

fun fdiv :: "npfloat \<Rightarrow> npfloat \<Rightarrow> npfloat" where
  "fdiv NaN y = NaN"
| "fdiv x NaN = NaN"
| "fdiv (Fin a) (Fin b) =
     (if b = 0 then (if a = 0 then NaN else if a > 0 then PInf else NInf)
      else Fin (a / b))"
| "fdiv (Fin a) y = Fin 0"
| "fdiv PInf (Fin b) = (if b \<ge> 0 then PInf else NInf)"
| "fdiv NInf (Fin b) = (if b \<ge> 0 then NInf else PInf)"
| "fdiv x y = NaN"

text \<open>\<^verbatim>\<open>np.fmin\<close> and \<^verbatim>\<open>np.fmax\<close>: the smaller (larger) operand, ignoring NaN.\<close>

fun fmin2 :: "npfloat \<Rightarrow> npfloat \<Rightarrow> npfloat" where
  "fmin2 NaN y = y"
| "fmin2 x NaN = x"
| "fmin2 NInf y = NInf"
| "fmin2 x NInf = NInf"
| "fmin2 PInf y = y"
| "fmin2 x PInf = x"
| "fmin2 (Fin a) (Fin b) = Fin (min a b)"

fun fmax2 :: "npfloat \<Rightarrow> npfloat \<Rightarrow> npfloat" where
  "fmax2 NaN y = y"
| "fmax2 x NaN = x"
| "fmax2 PInf y = PInf"
| "fmax2 x PInf = PInf"
| "fmax2 NInf y = y"
| "fmax2 x NInf = x"
| "fmax2 (Fin a) (Fin b) = Fin (max a b)"

text \<open>
  \<^verbatim>\<open>np.nanmin\<close> and \<^verbatim>\<open>np.nanmax\<close> over a whole array: \<open>ValueError\<close> for an
  array without elements, NaN (with a warning only) when every element is NaN.
\<close>

definition nanmin :: "npfloat list list \<Rightarrow> error + npfloat" where
  "nanmin a = (case concat a of [] \<Rightarrow> Inl ValueError | x # xs \<Rightarrow> Inr (foldl fmin2 x xs))"

definition nanmax :: "npfloat list list \<Rightarrow> error + npfloat" where
  "nanmax a = (case concat a of [] \<Rightarrow> Inl ValueError | x # xs \<Rightarrow> Inr (foldl fmax2 x xs))"

text \<open>
  One round of the loop over \<^verbatim>\<open>Sims\<close>:
  \<^verbatim>\<open>lo = np.nanmin(Sims[k]); hi = np.nanmax(Sims[k]); Sims[k] = (Sims[k] - lo) / (hi - lo)\<close>.
\<close>

definition rescale :: "npfloat \<Rightarrow> npfloat \<Rightarrow> npfloat \<Rightarrow> npfloat" where
  "rescale lo hi v = fdiv (fsub v lo) (fsub hi lo)"

definition normalize_channel :: "npfloat list list \<Rightarrow> error + npfloat list list" where
  "normalize_channel a =
     (case nanmin a of
        Inl e \<Rightarrow> Inl e
      | Inr lo \<Rightarrow>
          (case nanmax a of
             Inl e \<Rightarrow> Inl e
           | Inr hi \<Rightarrow> Inr (map (map (rescale lo hi)) a)))"

text \<open>The three channels are rescaled one after the other, each with its own bounds.\<close>

fun normalize_channels :: "npfloat list list list \<Rightarrow> error + npfloat list list list" where
  "normalize_channels [] = Inr []"
| "normalize_channels (a # as) =
     (case normalize_channel a of
        Inl e \<Rightarrow> Inl e
      | Inr a' \<Rightarrow>
          (case normalize_channels as of
             Inl e \<Rightarrow> Inl e
           | Inr as' \<Rightarrow> Inr (a' # as')))"

section \<open>The interpreter's numbers as a parameter\<close>

text \<open>
  The scores, losses and weights are Python numbers, binary64 floats for the most part.
  In the functions of this section the operations that the code applies to them are
  parameters: the builtin \<^verbatim>\<open>sum\<close>, \<^verbatim>\<open>+\<close>, the product of a score and a
  count, \<^verbatim>\<open>/\<close> (which raises \<open>ZeroDivisionError\<close>), \<^verbatim>\<open><\<close>, and the constants
  \<^verbatim>\<open>0\<close>, \<^verbatim>\<open>1e-3\<close>, \<^verbatim>\<open>float('inf')\<close> and \<^verbatim>\<open>1/n\<close>. What is proved of
  them holds for every arithmetic, with its rounding, overflow and NaN. The functions of
  the earlier sections are the same code read with exact arithmetic over the reals and
  with scalar attribute values.
\<close>

record 'f arith =
  num_zero :: 'f
  num_sum :: "'f list \<Rightarrow> 'f"
  num_add :: "'f \<Rightarrow> 'f \<Rightarrow> 'f"
  num_times :: "'f \<Rightarrow> int \<Rightarrow> 'f"
  num_div :: "'f \<Rightarrow> 'f \<Rightarrow> error + 'f"
  num_less :: "'f \<Rightarrow> 'f \<Rightarrow> bool"
  num_threshold :: 'f
  num_inf :: 'f
  num_recip :: "nat \<Rightarrow> 'f"

text \<open>
  An attribute value is a scalar or a list (training stores both); a list cannot be the
  key of a dictionary.
\<close>

datatype attr = Scalar string | Items "string list"

text \<open>The two entries of a ranked course that \<^verbatim>\<open>__decision_tree_split__\<close> reads.\<close>

record 'f scored =
  scored_features :: "(string \<times> attr) list"
  scored_score :: 'f

text \<open>
  \<^verbatim>\<open>__decision_tree_split__\<close> with these parameters; \<^verbatim>\<open>value not in counts\<close>
  hashes the value and raises \<open>TypeError\<close> for a list.
\<close>

fun py_count_values ::
  "string \<Rightarrow> 'f scored list \<Rightarrow> (attr \<times> int) list \<Rightarrow> error + (attr \<times> int) list" where
  "py_count_values n [] counts = Inr counts"
| "py_count_values n (c # cs) counts =
     (case map_of (scored_features c) n of
        None \<Rightarrow> Inl (KeyError n)
      | Some (Items xs) \<Rightarrow> Inl TypeError
      | Some (Scalar s) \<Rightarrow>
          (case map_of counts (Scalar s) of
             None \<Rightarrow> py_count_values n cs (AList.update (Scalar s) 1 counts)
           | Some k \<Rightarrow> py_count_values n cs (AList.update (Scalar s) (k + 1) counts)))"

definition py_non_trivial_choice :: "(attr \<times> int) list \<Rightarrow> nat \<Rightarrow> bool" where
  "py_non_trivial_choice counts len =
     list_ex (\<lambda>(v, k). k > (0 AND k) \<and> (0 AND k) < int len) counts"

fun py_course_number ::
  "'f arith \<Rightarrow> string \<Rightarrow> attr \<Rightarrow> 'f \<Rightarrow> 'f scored list \<Rightarrow> error + int" where
  "py_course_number ar n v s [] = Inr 0"
| "py_course_number ar n v s (c # cs) =
     (case map_of (scored_features c) n of
        None \<Rightarrow> Inl (KeyError n)
      | Some x \<Rightarrow>
          (case py_course_number ar n v s cs of
             Inl e \<Rightarrow> Inl e
           | Inr k \<Rightarrow> Inr ((if x = v \<and> num_less ar s (scored_score c) then 1 else 0) + k)))"

fun py_loss_loop ::
  "'f arith \<Rightarrow> string \<Rightarrow> 'f scored list \<Rightarrow> 'f scored list \<Rightarrow> 'f \<Rightarrow> error + 'f" where
  "py_loss_loop ar n allc [] loss = Inr loss"
| "py_loss_loop ar n allc (c # cs) loss =
     (case map_of (scored_features c) n of
        None \<Rightarrow> Inl (KeyError n)
      | Some v \<Rightarrow>
          (case py_course_number ar n v (scored_score c) allc of
             Inl e \<Rightarrow> Inl e
           | Inr k \<Rightarrow>
               py_loss_loop ar n allc cs
                 (num_add ar loss (num_times ar (scored_score c) k))))"

definition py_feature_loss ::
  "'f arith \<Rightarrow> 'f scored list \<Rightarrow> 'f \<Rightarrow> string \<Rightarrow> error + 'f option" where
  "py_feature_loss ar cs sum_scores n =
     (case py_count_values n cs [] of
        Inl e \<Rightarrow> Inl e
      | Inr counts \<Rightarrow>
          if \<not> py_non_trivial_choice counts (length cs) then Inr None
          else
            (case py_loss_loop ar n cs cs (num_zero ar) of
               Inl e \<Rightarrow> Inl e
             | Inr loss \<Rightarrow>
                 (case num_div ar loss sum_scores of
                    Inl e \<Rightarrow> Inl e
                  | Inr l \<Rightarrow> Inr (Some l))))"

fun py_split_loop ::
  "'f arith \<Rightarrow> 'f scored list \<Rightarrow> 'f \<Rightarrow> string list \<Rightarrow> nat \<Rightarrow> int \<Rightarrow> 'f \<Rightarrow> error + int" where
  "py_split_loop ar cs sum_scores [] j min_j min_loss = Inr min_j"
| "py_split_loop ar cs sum_scores (n # ns) j min_j min_loss =
     (case py_feature_loss ar cs sum_scores n of
        Inl e \<Rightarrow> Inl e
      | Inr None \<Rightarrow> py_split_loop ar cs sum_scores ns (Suc j) min_j min_loss
      | Inr (Some loss) \<Rightarrow>
          if num_less ar loss min_loss
          then py_split_loop ar cs sum_scores ns (Suc j) (int j) loss
          else py_split_loop ar cs sum_scores ns (Suc j) min_j min_loss)"

definition py_decision_tree_split ::
  "'f arith \<Rightarrow> 'f scored list \<Rightarrow> string list \<Rightarrow> error + int" where
  "py_decision_tree_split ar cs remaining_features =
     (let sum_scores = num_sum ar (map scored_score cs) in
      if num_less ar sum_scores (num_threshold ar) then Inr (- 1)
      else py_split_loop ar cs sum_scores remaining_features 0 (- 1) (num_inf ar))"

text \<open>
  The normalisation of \<^verbatim>\<open>__rank_courses__\<close> with these parameters. The update
  in place stops at the first division that raises and leaves the entries before it
  overwritten.
\<close>

definition py_normalization_of :: "'f arith \<Rightarrow> 'f dict \<Rightarrow> error + 'f" where
  "py_normalization_of ar preferences =
     (let normalization = num_sum ar (map snd preferences) in
      if num_less ar normalization (num_threshold ar) then
        (if length preferences = 0 then Inl ZeroDivisionError
         else Inr (num_recip ar (length preferences)))
      else Inr normalization)"

fun py_update_preferences :: "'f arith \<Rightarrow> 'f \<Rightarrow> 'f dict \<Rightarrow> error option \<times> 'f dict" where
  "py_update_preferences ar normalization [] = (None, [])"
| "py_update_preferences ar normalization ((key, value) # rest) =
     (case num_div ar value normalization of
        Inl e \<Rightarrow> (Some e, (key, value) # rest)
      | Inr q \<Rightarrow>
          (let (r, rest') = py_update_preferences ar normalization rest
           in (r, (key, q) # rest')))"

definition py_normalize_preferences ::
  "'f arith \<Rightarrow> string list \<Rightarrow> 'f dict \<Rightarrow> (error + 'f dict) \<times> 'f dict" where
  "py_normalize_preferences ar metas preferences =
     (case py_normalization_of ar preferences of
        Inl e \<Rightarrow> (Inl e, preferences)
      | Inr normalization \<Rightarrow>
          (case py_update_preferences ar normalization preferences of
             (Some e, updated) \<Rightarrow> (Inl e, updated)
           | (None, updated) \<Rightarrow> (reorder_preferences metas updated [], updated)))"

text \<open>
  An arithmetic to evaluate with: binary64 without rounding. A finite result is exact, a
  result of magnitude \<open>2 ^ 1024\<close> or more overflows to an infinity, and infinities and
  NaN combine as in IEEE 754. Where every intermediate result has a binary64
  representation, or overflows, these operations compute what the interpreter computes.
  The threshold is read as 1/1000; the binary64 number \<^verbatim>\<open>1e-3\<close> differs from it
  by less than \<open>1e-19\<close>, and no comparison in the evaluations below is that close.
\<close>

definition overflow :: "real \<Rightarrow> npfloat" where
  "overflow x = (if 2 ^ 1024 \<le> x then PInf else if x \<le> - (2 ^ 1024) then NInf else Fin x)"

fun unrounded_add :: "npfloat \<Rightarrow> npfloat \<Rightarrow> npfloat" where
  "unrounded_add NaN y = NaN"
| "unrounded_add x NaN = NaN"
| "unrounded_add (Fin a) (Fin b) = overflow (a + b)"
| "unrounded_add (Fin a) y = y"
| "unrounded_add PInf NInf = NaN"
| "unrounded_add PInf y = PInf"
| "unrounded_add NInf PInf = NaN"
| "unrounded_add NInf y = NInf"

fun unrounded_times :: "npfloat \<Rightarrow> int \<Rightarrow> npfloat" where
  "unrounded_times NaN k = NaN"
| "unrounded_times (Fin a) k = overflow (a * real_of_int k)"
| "unrounded_times PInf k = (if 0 < k then PInf else if k < 0 then NInf else NaN)"
| "unrounded_times NInf k = (if 0 < k then NInf else if k < 0 then PInf else NaN)"

fun unrounded_quotient :: "npfloat \<Rightarrow> npfloat \<Rightarrow> npfloat" where
  "unrounded_quotient NaN y = NaN"
| "unrounded_quotient x NaN = NaN"
| "unrounded_quotient (Fin a) (Fin b) = overflow (a / b)"
| "unrounded_quotient (Fin a) y = Fin 0"
| "unrounded_quotient PInf (Fin b) = (if 0 \<le> b then PInf else NInf)"
| "unrounded_quotient NInf (Fin b) = (if 0 \<le> b then NInf else PInf)"
| "unrounded_quotient x y = NaN"

definition unrounded_div :: "npfloat \<Rightarrow> npfloat \<Rightarrow> error + npfloat" where
  "unrounded_div x y =
     (if y = Fin 0 then Inl ZeroDivisionError else Inr (unrounded_quotient x y))"

fun unrounded_less :: "npfloat \<Rightarrow> npfloat \<Rightarrow> bool" where
  "unrounded_less NaN y = False"
| "unrounded_less x NaN = False"
| "unrounded_less (Fin a) (Fin b) = (a < b)"
| "unrounded_less (Fin a) y = (y = PInf)"
| "unrounded_less NInf y = (y \<noteq> NInf)"
| "unrounded_less PInf y = False"

definition unrounded :: "npfloat arith" where
  "unrounded =
     \<lparr>num_zero = Fin 0, num_sum = foldl unrounded_add (Fin 0), num_add = unrounded_add,
      num_times = unrounded_times, num_div = unrounded_div, num_less = unrounded_less,
      num_threshold = Fin (1 / 1000), num_inf = PInf,
      num_recip = (\<lambda>n. Fin (1 / real n))\<rparr>"

text \<open>The real value of a finite number.\<close>

fun finite_value :: "npfloat \<Rightarrow> real" where
  "finite_value (Fin x) = x"
| "finite_value y = 0"

section \<open>Predicates and example data used in the statements\<close>

text \<open>
  The four courses of \<^verbatim>\<open>testit.py\<close>, with the attributes and enrolment counts
  given there; the similarity vectors stand for the output of the embedding.
\<close>

definition test_course :: "int \<Rightarrow> string \<Rightarrow> real list \<Rightarrow> string dict \<Rightarrow> nat \<Rightarrow> course" where
  "test_course i n s fs k =
     \<lparr>course_id = i, name = n, Sim = s, features = fs, count = k\<rparr>"

definition course1 :: course where
  "course1 = test_course 1 ''Python for Data Science'' [1, 0, 0]
     [(''duration'', ''4 weeks''), (''badges'', ''yes''), (''certificate'', ''A''),
      (''price'', ''free''), (''type'', ''mooc_course'')] 2"

definition course2 :: course where
  "course2 = test_course 2 ''Python for Business'' [0, 1, 0]
     [(''duration'', ''2 months''), (''badges'', ''no''), (''certificate'', ''C''),
      (''price'', ''100 EUR''), (''type'', ''blended_course'')] 2"

definition course3 :: course where
  "course3 = test_course 3 ''Python for Health'' [0, 0, 1]
     [(''duration'', ''2 months''), (''badges'', ''no''), (''certificate'', ''A''),
      (''price'', ''50 EUR''), (''type'', ''blended_course'')] 2"

definition course4 :: course where
  "course4 = test_course 4 ''Python for Business and Health'' [0, 1, 1]
     [(''duration'', ''4 weeks''), (''badges'', ''no''), (''certificate'', ''A''),
      (''price'', ''free''), (''type'', ''blended_course'')] 0"

definition test_courses :: "course list" where
  "test_courses = [course1, course2, course3, course4]"

text \<open>A course matches a filter when it has the attribute with exactly that value.\<close>

text \<open>
  The two-item scenario: meta categories X and Y, item A with similarity \<open>[1, 0]\<close> and
  no enrolment, item B with similarity \<open>[0, 1]\<close> and 100 enrolments.
\<close>

definition item_A :: course where
  "item_A = \<lparr>course_id = 1, name = ''A'', Sim = [1, 0], features = [], count = 0\<rparr>"

definition item_B :: course where
  "item_B = \<lparr>course_id = 2, name = ''B'', Sim = [0, 1], features = [], count = 100\<rparr>"

definition scenario_model :: model where
  "scenario_model =
     \<lparr>meta_categories = [''X'', ''Y''], model_features = [], courses = [item_A, item_B]\<rparr>"

definition ranked_A :: crs where
  "ranked_A =
     \<lparr>crs_course_id = 1, crs_name = ''A'', crs_features = [], sim = 1, score = LAMBDA\<rparr>"

definition ranked_B :: crs where
  "ranked_B =
     \<lparr>crs_course_id = 2, crs_name = ''B'', crs_features = [], sim = 0, score = ln 101\<rparr>"

text \<open>A course that the scenario model has not seen.\<close>

definition stranger :: course where
  "stranger = \<lparr>course_id = 7, name = ''S'', Sim = [], features = [], count = 0\<rparr>"

text \<open>Two scored courses that share the only value of the attribute \<open>price\<close>.\<close>

definition uniform_courses :: "crs list" where
  "uniform_courses =
     [\<lparr>crs_course_id = 1, crs_name = ''one'', crs_features = [(''price'', ''free'')],
       sim = 1, score = 2\<rparr>,
      \<lparr>crs_course_id = 2, crs_name = ''two'', crs_features = [(''price'', ''free'')],
       sim = 0, score = 1\<rparr>]"

text \<open>
  The model that training builds from the four test courses: the meta categories of
  \<^verbatim>\<open>testit.py\<close> and, for every attribute, \<open>All\<close> followed by the values in
  the order of their first occurrence.
\<close>

definition test_model :: model where
  "test_model =
     \<lparr>meta_categories = [''IT'', ''Business'', ''Health''],
      model_features =
        [\<lparr>feature_name = ''duration'', feature_values = [''All'', ''4 weeks'', ''2 months'']\<rparr>,
         \<lparr>feature_name = ''badges'', feature_values = [''All'', ''yes'', ''no'']\<rparr>,
         \<lparr>feature_name = ''certificate'', feature_values = [''All'', ''A'', ''C'']\<rparr>,
         \<lparr>feature_name = ''price'',
          feature_values = [''All'', ''free'', ''100 EUR'', ''50 EUR'']\<rparr>,
         \<lparr>feature_name = ''type'',
          feature_values = [''All'', ''mooc_course'', ''blended_course'']\<rparr>],
      courses = test_courses\<rparr>"

text \<open>
  A query on the test model: the two filters of \<^verbatim>\<open>testit.py\<close>, a filter on an
  attribute that the schema does not have and a filter with a value that the schema
  does not have.
\<close>

definition test_filters :: "string \<rightharpoonup> string" where
  "test_filters =
     [''duration'' \<mapsto> ''4 weeks'', ''price'' \<mapsto> ''free'', ''colour'' \<mapsto> ''red'',
      ''badges'' \<mapsto> ''maybe'']"

definition test_state :: py_state where
  "test_state =
     \<lparr>self_model = Some test_model,
      caller_preferences = [(''IT'', 1), (''Business'', 0), (''Health'', 0)]\<rparr>"

definition honoured_filters :: "filter_entry list" where
  "honoured_filters =
     [\<lparr>filter_name = ''duration'', filter_value = ''4 weeks''\<rparr>,
      \<lparr>filter_name = ''price'', filter_value = ''free''\<rparr>]"

definition ranked_1 :: crs where
  "ranked_1 =
     \<lparr>crs_course_id = 1, crs_name = name course1, crs_features = features course1,
      sim = 1, score = LAMBDA + ln 3\<rparr>"

definition ranked_4 :: crs where
  "ranked_4 =
     \<lparr>crs_course_id = 4, crs_name = name course4, crs_features = features course4,
      sim = 0, score = 0\<rparr>"

text \<open>
  An applied filter is recognised when the schema has an attribute of its name with
  its value among the values of that attribute.
\<close>

definition recognised :: "model \<Rightarrow> string \<Rightarrow> string \<Rightarrow> bool" where
  "recognised m n v =
     list_ex (\<lambda>f. feature_name f = n \<and> v \<in> set (feature_values f)) (model_features m)"

definition recognised_part :: "model \<Rightarrow> (string \<rightharpoonup> string) \<Rightarrow> (string \<rightharpoonup> string)" where
  "recognised_part m af =
     (\<lambda>n. case af n of
             None \<Rightarrow> None
           | Some v \<Rightarrow> if recognised m n v then Some v else None)"

text \<open>The dot product of a similarity vector with a weight vector.\<close>

definition dot :: "real list \<Rightarrow> real list \<Rightarrow> real" where
  "dot ss ws = sum_list (map (\<lambda>(s, w). s * w) (zip ss ws))"

text \<open>A ranked course is known when its id occurs in the trained model.\<close>

definition known :: "model \<Rightarrow> crs \<Rightarrow> bool" where
  "known m k = (crs_course_id k \<in> set (map course_id (courses m)))"

definition known_course :: "model \<Rightarrow> course \<Rightarrow> bool" where
  "known_course m c = (course_id c \<in> set (map course_id (courses m)))"

text \<open>
  The order of the array elements that are not NaN, and a channel of zeros (what
  training uses for the category channel when no course has a category).
\<close>

fun fle :: "npfloat \<Rightarrow> npfloat \<Rightarrow> bool" where
  "fle NaN y = False"
| "fle x NaN = False"
| "fle NInf y = True"
| "fle x PInf = True"
| "fle (Fin a) (Fin b) = (a \<le> b)"
| "fle x y = False"

definition zero_channel :: "npfloat list list" where
  "zero_channel = [[Fin 0, Fin 0], [Fin 0, Fin 0]]"

definition name_channel :: "npfloat list list" where
  "name_channel = [[Fin (1 / 2), Fin (- 1 / 2)], [Fin 0, Fin (1 / 4)]]"

text \<open>The order laws of \<^verbatim>\<open><\<close> that the choice of the split relies on.\<close>

definition strict_order :: "'f arith \<Rightarrow> bool" where
  "strict_order ar =
     ((\<forall>a. \<not> num_less ar a a) \<and>
      (\<forall>a b c. num_less ar a b \<longrightarrow> num_less ar b c \<longrightarrow> num_less ar a c))"

text \<open>
  With \<open>ordered\<close> the numbers that are not NaN: an ordered number lies above the
  smaller or below the greater of two numbers in order.
\<close>

definition comparable :: "'f arith \<Rightarrow> ('f \<Rightarrow> bool) \<Rightarrow> bool" where
  "comparable ar ordered =
     (\<forall>a b c. ordered c \<longrightarrow> num_less ar a b \<longrightarrow> num_less ar a c \<or> num_less ar c b)"

text \<open>A scored course has the attribute \<open>n\<close> with a scalar value.\<close>

definition hashable_feature :: "string \<Rightarrow> 'f scored \<Rightarrow> bool" where
  "hashable_feature n c = (\<exists>s. map_of (scored_features c) n = Some (Scalar s))"

text \<open>
  Three scored courses with four attributes. For \<open>a\<close> and \<open>b\<close> one course shares its
  value with a course of higher score, for \<open>c\<close> and \<open>d\<close> all values differ. All scores,
  sums and quotients are binary64 numbers.
\<close>

definition split_courses :: "npfloat scored list" where
  "split_courses =
     [\<lparr>scored_features =
         [(''a'', Scalar ''x''), (''b'', Scalar ''p''), (''c'', Scalar ''1''),
          (''d'', Scalar ''1'')],
       scored_score = Fin 4\<rparr>,
      \<lparr>scored_features =
         [(''a'', Scalar ''x''), (''b'', Scalar ''q''), (''c'', Scalar ''2''),
          (''d'', Scalar ''2'')],
       scored_score = Fin 2\<rparr>,
      \<lparr>scored_features =
         [(''a'', Scalar ''y''), (''b'', Scalar ''p''), (''c'', Scalar ''3''),
          (''d'', Scalar ''3'')],
       scored_score = Fin 2\<rparr>]"

text \<open>
  Preferences whose sum overflows in binary64, and preferences with the sum 2; the
  weights, sums and quotients are binary64 numbers.
\<close>

definition huge_preferences :: "npfloat dict" where
  "huge_preferences = [(''X'', Fin (2 ^ 1023)), (''Y'', Fin (2 ^ 1023))]"

definition dyadic_preferences :: "npfloat dict" where
  "dyadic_preferences = [(''Business'', Fin 1), (''Health'', Fin (1 / 2)), (''IT'', Fin (1 / 2))]"

text \<open>The part of a query that follows the resolution of the filters.\<close>

definition answer_query ::
  "py_state \<Rightarrow> model \<Rightarrow> filter_entry list \<Rightarrow> string list \<Rightarrow>
     (error + recommendation) \<times> py_state" where
  "answer_query st m filters remaining_features =
     (case filter_courses (courses m) filters of
        Inl e \<Rightarrow> (Inl e, st)
      | Inr filtered \<Rightarrow>
          (case rank_courses m filtered (caller_preferences st) of
             (Inl e, preferences') \<Rightarrow>
               (Inl e, st\<lparr>caller_preferences := preferences'\<rparr>)
           | (Inr ranked, preferences') \<Rightarrow>
               (case decision_tree_split ranked remaining_features of
                  Inl e \<Rightarrow> (Inl e, st\<lparr>caller_preferences := preferences'\<rparr>)
                | Inr split_index \<Rightarrow>
                    (Inr (filters, remaining_features, ranked, split_index),
                     st\<lparr>caller_preferences := preferences'\<rparr>))))"

definition matches :: "filter_entry \<Rightarrow> course \<Rightarrow> bool" where
  "matches f c = (map_of (features c) (filter_name f) = Some (filter_value f))"

definition has_attribute :: "string \<Rightarrow> course \<Rightarrow> bool" where
  "has_attribute n c = (map_of (features c) n \<noteq> None)"

section \<open>Properties of the filter\<close>

lemma select_courses_Inr:
  "select_courses n v cs = Inr r \<Longrightarrow>
     r = filter (\<lambda>c. map_of (features c) n = Some v) cs \<and> list_all (has_attribute n) cs"
  by (induction cs arbitrary: r)
     (auto simp: has_attribute_def split: option.splits sum.splits if_splits)

lemma select_courses_total:
  "list_all (has_attribute n) cs \<Longrightarrow>
     select_courses n v cs = Inr (filter (\<lambda>c. map_of (features c) n = Some v) cs)"
  by (induction cs) (auto simp: has_attribute_def)

lemma select_courses_keeps_attribute:
  "select_courses n v cs = Inr r \<Longrightarrow> list_all (has_attribute k) cs \<Longrightarrow>
     list_all (has_attribute k) r"
  by (drule select_courses_Inr) (simp add: list_all_iff)

lemma filter_courses_Inr:
  "filter_courses cs fs = Inr r \<Longrightarrow> r = filter (\<lambda>c. \<forall>f \<in> set fs. matches f c) cs"
proof (induction fs arbitrary: cs)
  case Nil
  then show ?case by simp
next
  case (Cons f fs)
  from Cons.prems obtain cs' where
    sel: "select_courses (filter_name f) (filter_value f) cs = Inr cs'" and
    rest: "filter_courses cs' fs = Inr r"
    by (auto split: sum.splits)
  from select_courses_Inr [OF sel] have "cs' = filter (matches f) cs"
    by (simp add: matches_def [abs_def])
  with Cons.IH [OF rest] show ?case
    by (simp add: conj_commute)
qed

lemma filter_courses_total:
  "\<forall>f \<in> set fs. list_all (has_attribute (filter_name f)) cs \<Longrightarrow>
     filter_courses cs fs = Inr (filter (\<lambda>c. \<forall>f \<in> set fs. matches f c) cs)"
proof (induction fs arbitrary: cs)
  case Nil
  then show ?case by simp
next
  case (Cons f fs)
  let ?cs' = "filter (\<lambda>c. map_of (features c) (filter_name f) = Some (filter_value f)) cs"
  from Cons.prems have sel:
    "select_courses (filter_name f) (filter_value f) cs = Inr ?cs'"
    by (simp add: select_courses_total)
  from Cons.prems have "\<forall>g \<in> set fs. list_all (has_attribute (filter_name g)) ?cs'"
    by (simp add: list_all_iff)
  from Cons.IH [OF this] sel show ?case
    by (simp add: matches_def conj_commute)
qed

text \<open>
  C8. With no filter the courses come back unchanged. Filtering by \<open>[f]\<close> and then by
  \<open>[g]\<close> is the same computation as filtering once by \<open>[f, g]\<close>, exception included.
  Whenever a filter list is applied without an exception, the result is the sublist of
  the courses that carry every filtered attribute with exactly the required value; and no
  exception is raised when every course has every filtered attribute.
\<close>

theorem filter_courses_conjunctive:
  "filter_courses cs [] = Inr cs \<and>
   filter_courses cs [f, g] =
     (case filter_courses cs [f] of Inl e \<Rightarrow> Inl e | Inr cs' \<Rightarrow> filter_courses cs' [g]) \<and>
   (filter_courses cs [f, g] = Inr r \<longrightarrow>
      r = filter (\<lambda>c. matches f c \<and> matches g c) cs) \<and>
   (filter_courses cs fs = Inr r' \<longrightarrow>
      r' = filter (\<lambda>c. \<forall>h \<in> set fs. matches h c) cs) \<and>
   ((\<forall>h \<in> set fs. list_all (has_attribute (filter_name h)) cs) \<longrightarrow>
      filter_courses cs fs = Inr (filter (\<lambda>c. \<forall>h \<in> set fs. matches h c) cs))"
proof (intro conjI impI)
  show "filter_courses cs [] = Inr cs" by simp
  show "filter_courses cs [f, g] =
     (case filter_courses cs [f] of Inl e \<Rightarrow> Inl e | Inr cs' \<Rightarrow> filter_courses cs' [g])"
    by (simp split: sum.splits)
  show "r = filter (\<lambda>c. matches f c \<and> matches g c) cs" if "filter_courses cs [f, g] = Inr r"
    using filter_courses_Inr [OF that] by simp
  show "r' = filter (\<lambda>c. \<forall>h \<in> set fs. matches h c) cs" if "filter_courses cs fs = Inr r'"
    using that by (rule filter_courses_Inr)
  show "filter_courses cs fs = Inr (filter (\<lambda>c. \<forall>h \<in> set fs. matches h c) cs)"
    if "\<forall>h \<in> set fs. list_all (has_attribute (filter_name h)) cs"
    using that by (rule filter_courses_total)
qed

lemmas test_defs =
  test_courses_def course1_def course2_def course3_def course4_def test_course_def

theorem filter_courses_conjunctive_witness:
  "filter_courses test_courses
     [\<lparr>filter_name = ''duration'', filter_value = ''4 weeks''\<rparr>,
      \<lparr>filter_name = ''badges'', filter_value = ''no''\<rparr>] = Inr [course4] \<and>
   [course4] = filter (\<lambda>c. matches \<lparr>filter_name = ''duration'', filter_value = ''4 weeks''\<rparr> c \<and>
                          matches \<lparr>filter_name = ''badges'', filter_value = ''no''\<rparr> c) test_courses \<and>
   list_all (has_attribute ''duration'') test_courses \<and>
   list_all (has_attribute ''badges'') test_courses"
proof -
  let ?f = "\<lparr>filter_name = ''duration'', filter_value = ''4 weeks''\<rparr>"
  let ?g = "\<lparr>filter_name = ''badges'', filter_value = ''no''\<rparr>"
  have run: "filter_courses test_courses [?f, ?g] = Inr [course4]"
    by (simp add: test_defs)
  have wf: "\<forall>h \<in> set [?f, ?g]. list_all (has_attribute (filter_name h)) test_courses"
    by (simp add: test_defs has_attribute_def)
  from filter_courses_conjunctive [of test_courses ?f ?g "[course4]" "[?f, ?g]" "[course4]"] run wf
  show ?thesis by simp
qed

section \<open>Resolving the applied filters\<close>

lemma resolve_filters_members:
  "resolve_filters fs af = (filters, remaining) \<Longrightarrow>
     (\<lparr>filter_name = n, filter_value = v\<rparr> \<in> set filters \<longleftrightarrow>
        af n = Some v \<and> list_ex (\<lambda>f. feature_name f = n \<and> v \<in> set (feature_values f)) fs) \<and>
     (n \<in> set remaining \<longleftrightarrow>
        list_ex (\<lambda>f. feature_name f = n \<and>
                 (case af n of None \<Rightarrow> True | Some v \<Rightarrow> v \<notin> set (feature_values f))) fs)"
proof (induction fs arbitrary: filters remaining)
  case Nil
  then show ?case by auto
next
  case (Cons f fs)
  obtain fl rm where r: "resolve_filters fs af = (fl, rm)" by (cases "resolve_filters fs af")
  note IH = Cons.IH [OF r]
  show ?case
  proof (cases "af (feature_name f)")
    case None
    with Cons.prems r have "filters = fl" "remaining = feature_name f # rm" by auto
    with IH None show ?thesis by auto
  next
    case (Some w)
    show ?thesis
    proof (cases "w \<in> set (feature_values f)")
      case True
      with Cons.prems r Some have
        "filters = \<lparr>filter_name = feature_name f, filter_value = w\<rparr> # fl" "remaining = rm"
        by auto
      with IH Some True show ?thesis by auto
    next
      case False
      with Cons.prems r Some have "filters = fl" "remaining = feature_name f # rm" by auto
      with IH Some False show ?thesis by auto
    qed
  qed
qed

lemma resolve_filters_cong:
  "(\<And>f. f \<in> set fs \<Longrightarrow>
      (case af (feature_name f) of None \<Rightarrow> None
       | Some v \<Rightarrow> if v \<in> set (feature_values f) then Some v else None) =
      (case af' (feature_name f) of None \<Rightarrow> None
       | Some v \<Rightarrow> if v \<in> set (feature_values f) then Some v else None)) \<Longrightarrow>
   resolve_filters fs af = resolve_filters fs af'"
proof (induction fs)
  case Nil
  then show ?case by simp
next
  case (Cons f fs)
  have rest: "resolve_filters fs af = resolve_filters fs af'"
    by (rule Cons.IH) (simp add: Cons.prems)
  have here: "(case af (feature_name f) of None \<Rightarrow> None
       | Some v \<Rightarrow> if v \<in> set (feature_values f) then Some v else None) =
      (case af' (feature_name f) of None \<Rightarrow> None
       | Some v \<Rightarrow> if v \<in> set (feature_values f) then Some v else None)"
    by (rule Cons.prems) simp
  from here rest show ?case
    by (auto split: option.splits if_splits prod.splits)
qed

lemma resolve_filters_recognised_part:
  "resolve_filters (model_features m) (recognised_part m af) =
   resolve_filters (model_features m) af"
proof (rule resolve_filters_cong)
  fix f assume "f \<in> set (model_features m)"
  then show "(case recognised_part m af (feature_name f) of None \<Rightarrow> None
       | Some v \<Rightarrow> if v \<in> set (feature_values f) then Some v else None) =
      (case af (feature_name f) of None \<Rightarrow> None
       | Some v \<Rightarrow> if v \<in> set (feature_values f) then Some v else None)"
    by (auto simp: recognised_part_def recognised_def list_ex_iff split: option.splits)
qed

lemma recommend_answer_query:
  "self_model st = Some m \<Longrightarrow> resolve_filters (model_features m) af = (fs, rem) \<Longrightarrow>
     recommend st (Some af) = answer_query st m fs rem"
  by (simp add: recommend_def answer_query_def)

lemma answer_query_Inr:
  "answer_query st m fs rem = (Inr (fs', rem', ranked, j), st') \<Longrightarrow>
     fs' = fs \<and> rem' = rem \<and>
     (\<exists>filtered. filter_courses (courses m) fs = Inr filtered \<and>
        fst (rank_courses m filtered (caller_preferences st)) = Inr ranked)"
  by (auto simp: answer_query_def split: sum.splits prod.splits)

section \<open>Evaluation on concrete inputs\<close>

lemma ln_101_less: "ln (101::real) < ln 10 * 10"
proof -
  have e: "ln ((10::real) ^ 10) = real 10 * ln 10" by (rule ln_realpow)
  have "ln (101::real) < ln (10 ^ 10)" by (subst ln_less_cancel_iff) simp_all
  with e show ?thesis by simp
qed

lemma not_LAMBDA_le: "\<not> ln 10 * 10 \<le> ln (101::real)"
  using ln_101_less by simp

lemma LAMBDA_ge: "ln (101::real) \<le> ln 10 * 10"
  using ln_101_less by simp

lemma ln_10_pos: "0 < ln (10::real)" by simp

lemma ln_10_le_101: "ln (10::real) \<le> ln 101"
  by (subst ln_le_cancel_iff) simp_all

lemma small: "\<not> ln (101::real) * 125 \<le> ln 10"
  using ln_10_pos ln_10_le_101 by linarith

lemma small2: "\<not> ln (101::real) * 125 \<le> 2 * ln 10"
  using ln_10_pos ln_10_le_101 by linarith

lemmas rank_defs = rank_courses_def normalize_preferences_def normalization_of_def
  update_preferences_def rank_course_def unknown_crs_def sort_by_score_def Let_def

lemmas scenario_defs = scenario_model_def item_A_def item_B_def ranked_A_def ranked_B_def

lemma split_empty: "decision_tree_split cs [] = Inr (- 1)"
  by (simp add: decision_tree_split_def Let_def)

text \<open>
  C1. Both courses carry the same value of \<open>price\<close>, the only candidate, and the scores
  sum to 3. The count of the single value is 2, the candidate is not skipped, its loss
  is 1/3 and its index 0 is returned, where an attribute with one uniform value should
  lead to \<open>-1\<close>.
\<close>

theorem uniform_attribute_chosen:
  "sum_list (map score uniform_courses) = 3 \<and>
   count_values ''price'' uniform_courses [] = Inr [(''free'', 2)] \<and>
   feature_loss uniform_courses 3 ''price'' = Inr (Some (1 / 3)) \<and>
   decision_tree_split uniform_courses [''price''] = Inr 0"
  by (simp add: decision_tree_split_def feature_loss_def non_trivial_choice_def
      uniform_courses_def Let_def)

text \<open>
  C2. With meta categories X and Y and the all-zero preferences, the sum is below the
  threshold, the divisor becomes 1/2 and every weight stays 0: the result is not the
  uniform distribution (1/2, 1/2).
\<close>

theorem zero_preferences_not_uniform:
  "normalize_preferences [''X'', ''Y''] [(''X'', 0), (''Y'', 0)] =
     (Inr [(''X'', 0), (''Y'', 0)], [(''X'', 0), (''Y'', 0)])"
  by (simp add: normalize_preferences_def normalization_of_def update_preferences_def Let_def)

text \<open>
  C3. A query overwrites the dictionary of the caller with the normalised weights:
  \<open>{X: 2, Y: 0}\<close> is \<open>{X: 1, Y: 0}\<close> after the call. When the sum is below the
  threshold the overwritten values differ from a normalisation, and a second call with
  the same dictionary returns other scores than the first.
\<close>

theorem recommend_overwrites_preferences:
  "recommend \<lparr>self_model = Some scenario_model,
              caller_preferences = [(''X'', 2), (''Y'', 0)]\<rparr> None =
     (Inr ([], [], [ranked_A, ranked_B], - 1),
      \<lparr>self_model = Some scenario_model,
       caller_preferences = [(''X'', 1), (''Y'', 0)]\<rparr>) \<and>
   recommend \<lparr>self_model = Some scenario_model,
              caller_preferences = [(''X'', 1 / 2500), (''Y'', 0)]\<rparr> None =
     (Inr ([], [], [ranked_B, ranked_A\<lparr>sim := 1 / 1250, score := LAMBDA / 1250\<rparr>], - 1),
      \<lparr>self_model = Some scenario_model,
       caller_preferences = [(''X'', 1 / 1250), (''Y'', 0)]\<rparr>) \<and>
   recommend \<lparr>self_model = Some scenario_model,
              caller_preferences = [(''X'', 1 / 1250), (''Y'', 0)]\<rparr> None =
     (Inr ([], [], [ranked_B, ranked_A\<lparr>sim := 1 / 625, score := LAMBDA / 625\<rparr>], - 1),
      \<lparr>self_model = Some scenario_model,
       caller_preferences = [(''X'', 1 / 625), (''Y'', 0)]\<rparr>)"
  by (simp add: recommend_def rank_defs scenario_defs split_empty LAMBDA_def
      not_LAMBDA_le LAMBDA_ge small small2)

section \<open>Applied filters and the schema\<close>

lemma ln_3_pos: "0 < ln (3::real)"
  by simp

lemma score_1_pos: "0 < ln (10::real) * 10 + ln 3"
  using ln_10_pos ln_3_pos by linarith

lemma score_1_not_le: "\<not> ln (10::real) * 10 + ln 3 \<le> 0"
  using score_1_pos by linarith

lemma score_1_neg: "- (ln (10::real) * 10) \<le> ln 3"
  using ln_10_pos ln_3_pos by linarith

lemma score_1_large: "\<not> 10000 * ln (10::real) + ln 3 * 1000 < 1"
proof -
  have "ln (exp 1) \<le> ln (3::real)"
    by (subst ln_le_cancel_iff) (use exp_le in auto)
  then have "1 \<le> ln (3::real)" by simp
  with ln_10_pos show ?thesis by linarith
qed

lemma test_resolve:
  "resolve_filters (model_features test_model) test_filters =
     (honoured_filters, [''badges'', ''certificate'', ''type''])"
  by (simp add: test_model_def test_filters_def honoured_filters_def)

lemma test_filtered:
  "filter_courses (courses test_model) honoured_filters = Inr [course1, course4]"
  by (simp add: test_model_def test_defs honoured_filters_def)

lemma test_ranked:
  "rank_courses test_model [course1, course4]
     [(''IT'', 1), (''Business'', 0), (''Health'', 0)] =
     (Inr [ranked_1, ranked_4], [(''IT'', 1), (''Business'', 0), (''Health'', 0)])"
  by (simp add: test_model_def test_defs rank_defs LAMBDA_def ranked_1_def ranked_4_def
      score_1_pos score_1_not_le score_1_neg less_imp_le)

lemma test_split:
  "decision_tree_split [ranked_1, ranked_4] [''badges'', ''certificate'', ''type''] = Inr 0"
  by (simp add: decision_tree_split_def feature_loss_def non_trivial_choice_def
      ranked_1_def ranked_4_def test_defs LAMBDA_def score_1_pos score_1_not_le
      score_1_large Let_def)

lemma test_recommend:
  "recommend test_state (Some test_filters) =
     (Inr (honoured_filters, [''badges'', ''certificate'', ''type''],
           [ranked_1, ranked_4], 0), test_state)"
  by (simp add: recommend_def test_state_def test_resolve test_filtered test_ranked
      test_split del: filter_courses.simps)

text \<open>
  C9, as stated, fails: the filter on \<open>colour\<close> is not recognised (the schema has no
  such attribute), the query succeeds, and \<open>colour\<close> is not among the remaining
  features.
\<close>

theorem unknown_attribute_not_remaining:
  "recommend test_state (Some test_filters) =
     (Inr (honoured_filters, [''badges'', ''certificate'', ''type''],
           [ranked_1, ranked_4], 0), test_state) \<and>
   test_filters ''colour'' = Some ''red'' \<and>
   \<not> recognised test_model ''colour'' ''red'' \<and>
   ''colour'' \<notin> set [''badges'', ''certificate'', ''type'']"
proof (intro conjI)
  show "recommend test_state (Some test_filters) =
     (Inr (honoured_filters, [''badges'', ''certificate'', ''type''],
           [ranked_1, ranked_4], 0), test_state)"
    by (rule test_recommend)
  show "test_filters ''colour'' = Some ''red''"
    by (simp add: test_filters_def)
  show "\<not> recognised test_model ''colour'' ''red''"
    by (simp add: recognised_def test_model_def)
  show "''colour'' \<notin> set [''badges'', ''certificate'', ''type'']"
    by simp
qed

text \<open>
  C9, amended. Without a trained model a query raises \<open>ValueError\<close>, whatever the
  applied filters. With a trained model, the loop over the schema yields the filter list
  and the remaining features with which the query is answered (the courses are filtered
  by that list, and a query that returns, returns both lists): a filter is in the filter
  list if and only if the applied filters map its attribute to its value and the schema
  recognises the pair, and the attribute of an applied filter that is not recognised is
  among the remaining features if and only if it is an attribute of the schema. An entry
  that is not recognised is never an error: the query, exception or not, is the query
  without the entries that are not recognised.
\<close>

theorem filters_resolved_against_schema:
  "(self_model st = None \<longrightarrow> recommend st (Some af) = (Inl ValueError, st)) \<and>
   (self_model st = Some m \<longrightarrow>
      recommend st (Some (recognised_part m af)) = recommend st (Some af) \<and>
      (\<exists>fs rem. resolve_filters (model_features m) af = (fs, rem) \<and>
         recommend st (Some af) = answer_query st m fs rem \<and>
         (\<lparr>filter_name = n, filter_value = v\<rparr> \<in> set fs \<longleftrightarrow>
            af n = Some v \<and> recognised m n v) \<and>
         (af n = Some v \<and> \<not> recognised m n v \<longrightarrow>
            (n \<in> set rem \<longleftrightarrow> n \<in> set (map feature_name (model_features m)))) \<and>
         (\<forall>fs' rem' ranked j st'.
            recommend st (Some af) = (Inr (fs', rem', ranked, j), st') \<longrightarrow>
            fs' = fs \<and> rem' = rem \<and>
            (\<exists>filtered. filter_courses (courses m) fs = Inr filtered \<and>
               fst (rank_courses m filtered (caller_preferences st)) = Inr ranked))))"
proof (intro conjI impI)
  show "recommend st (Some af) = (Inl ValueError, st)" if "self_model st = None"
    using that by (simp add: recommend_def)
next
  assume m: "self_model st = Some m"
  show "recommend st (Some (recognised_part m af)) = recommend st (Some af)"
    using m by (simp add: recommend_def resolve_filters_recognised_part)
  obtain fs rem where r: "resolve_filters (model_features m) af = (fs, rem)"
    by (cases "resolve_filters (model_features m) af")
  have q: "recommend st (Some af) = answer_query st m fs rem"
    using m r by (rule recommend_answer_query)
  from resolve_filters_members [OF r, of n v] have
    hon: "\<lparr>filter_name = n, filter_value = v\<rparr> \<in> set fs \<longleftrightarrow> af n = Some v \<and> recognised m n v"
    and rm: "n \<in> set rem \<longleftrightarrow>
        list_ex (\<lambda>f. feature_name f = n \<and>
                 (case af n of None \<Rightarrow> True | Some v \<Rightarrow> v \<notin> set (feature_values f)))
          (model_features m)"
    by (simp_all add: recognised_def)
  have unrec: "af n = Some v \<and> \<not> recognised m n v \<longrightarrow>
      (n \<in> set rem \<longleftrightarrow> n \<in> set (map feature_name (model_features m)))"
    using rm by (auto simp: recognised_def list_ex_iff)
  have ret: "\<forall>fs' rem' ranked j st'.
      recommend st (Some af) = (Inr (fs', rem', ranked, j), st') \<longrightarrow>
      fs' = fs \<and> rem' = rem \<and>
      (\<exists>filtered. filter_courses (courses m) fs = Inr filtered \<and>
         fst (rank_courses m filtered (caller_preferences st)) = Inr ranked)"
    unfolding q by (intro allI impI) (rule answer_query_Inr)
  from r q hon unrec ret
  show "\<exists>fs rem. resolve_filters (model_features m) af = (fs, rem) \<and>
         recommend st (Some af) = answer_query st m fs rem \<and>
         (\<lparr>filter_name = n, filter_value = v\<rparr> \<in> set fs \<longleftrightarrow>
            af n = Some v \<and> recognised m n v) \<and>
         (af n = Some v \<and> \<not> recognised m n v \<longrightarrow>
            (n \<in> set rem \<longleftrightarrow> n \<in> set (map feature_name (model_features m)))) \<and>
         (\<forall>fs' rem' ranked j st'.
            recommend st (Some af) = (Inr (fs', rem', ranked, j), st') \<longrightarrow>
            fs' = fs \<and> rem' = rem \<and>
            (\<exists>filtered. filter_courses (courses m) fs = Inr filtered \<and>
               fst (rank_courses m filtered (caller_preferences st)) = Inr ranked))"
    by blast
qed

theorem filters_resolved_against_schema_witness:
  "self_model test_state = Some test_model \<and>
   recommend test_state (Some (recognised_part test_model test_filters)) =
     recommend test_state (Some test_filters) \<and>
   self_model \<lparr>self_model = None, caller_preferences = []\<rparr> = None \<and>
   recommend \<lparr>self_model = None, caller_preferences = []\<rparr> (Some test_filters) =
     (Inl ValueError, \<lparr>self_model = None, caller_preferences = []\<rparr>) \<and>
   test_filters ''badges'' = Some ''maybe'' \<and>
   \<not> recognised test_model ''badges'' ''maybe'' \<and>
   resolve_filters (model_features test_model) test_filters =
     (honoured_filters, [''badges'', ''certificate'', ''type'']) \<and>
   recommend test_state (Some test_filters) =
     answer_query test_state test_model honoured_filters
       [''badges'', ''certificate'', ''type''] \<and>
   \<lparr>filter_name = ''badges'', filter_value = ''maybe''\<rparr> \<notin> set honoured_filters \<and>
   ''badges'' \<in> set [''badges'', ''certificate'', ''type''] \<and>
   ''badges'' \<in> set (map feature_name (model_features test_model)) \<and>
   (\<exists>filtered. filter_courses (courses test_model) honoured_filters = Inr filtered \<and>
      fst (rank_courses test_model filtered (caller_preferences test_state)) =
        Inr [ranked_1, ranked_4])"
proof -
  let ?none = "\<lparr>self_model = None, caller_preferences = []\<rparr> :: py_state"
  have m: "self_model test_state = Some test_model"
    by (simp add: test_state_def)
  have u: "self_model ?none = None" by simp
  have b: "test_filters ''badges'' = Some ''maybe''"
    by (simp add: test_filters_def)
  have nr: "\<not> recognised test_model ''badges'' ''maybe''"
    by (simp add: recognised_def test_model_def)
  note t = filters_resolved_against_schema
    [of test_state test_filters test_model "''badges''" "''maybe''"]
  note t' = filters_resolved_against_schema
    [of ?none test_filters test_model "''badges''" "''maybe''"]
  from t' u have err: "recommend ?none (Some test_filters) = (Inl ValueError, ?none)"
    by blast
  from t m have same: "recommend test_state (Some (recognised_part test_model test_filters)) =
     recommend test_state (Some test_filters)"
    by blast
  from t m obtain fs rem where
    r: "resolve_filters (model_features test_model) test_filters = (fs, rem)" and
    q: "recommend test_state (Some test_filters) = answer_query test_state test_model fs rem" and
    hon: "\<lparr>filter_name = ''badges'', filter_value = ''maybe''\<rparr> \<in> set fs \<longleftrightarrow>
            test_filters ''badges'' = Some ''maybe'' \<and> recognised test_model ''badges'' ''maybe''" and
    rm: "test_filters ''badges'' = Some ''maybe'' \<and> \<not> recognised test_model ''badges'' ''maybe'' \<longrightarrow>
            (''badges'' \<in> set rem \<longleftrightarrow>
             ''badges'' \<in> set (map feature_name (model_features test_model)))" and
    ret: "\<forall>fs' rem' ranked j st'.
            recommend test_state (Some test_filters) = (Inr (fs', rem', ranked, j), st') \<longrightarrow>
            fs' = fs \<and> rem' = rem \<and>
            (\<exists>filtered. filter_courses (courses test_model) fs = Inr filtered \<and>
               fst (rank_courses test_model filtered (caller_preferences test_state)) =
                 Inr ranked)"
    by blast
  from ret test_recommend have eq: "fs = honoured_filters"
    "rem = [''badges'', ''certificate'', ''type'']"
    and ex: "\<exists>filtered. filter_courses (courses test_model) fs = Inr filtered \<and>
               fst (rank_courses test_model filtered (caller_preferences test_state)) =
                 Inr [ranked_1, ranked_4]"
    by blast+
  from hon nr eq have out: "\<lparr>filter_name = ''badges'', filter_value = ''maybe''\<rparr> \<notin> set honoured_filters"
    by simp
  from rm b nr eq have inrem:
    "''badges'' \<in> set [''badges'', ''certificate'', ''type''] \<longleftrightarrow>
     ''badges'' \<in> set (map feature_name (model_features test_model))"
    by simp
  have "''badges'' \<in> set [''badges'', ''certificate'', ''type'']" by simp
  with inrem have sch: "''badges'' \<in> set (map feature_name (model_features test_model))"
    by simp
  from m same u err b nr r [unfolded eq] q [unfolded eq] out sch ex [unfolded eq]
  show ?thesis
    by (intro conjI) simp_all
qed

section \<open>The choice of the split\<close>

lemma unrounded_less_irrefl: "\<not> unrounded_less a a"
  by (cases a) auto

lemma unrounded_less_trans: "unrounded_less a b \<Longrightarrow> unrounded_less b c \<Longrightarrow> unrounded_less a c"
  by (cases a; cases b; cases c) auto

lemma unrounded_less_cotrans:
  "c \<noteq> NaN \<Longrightarrow> unrounded_less a b \<Longrightarrow> unrounded_less a c \<or> unrounded_less c b"
  by (cases a; cases b; cases c) auto

lemma py_split_loop_Inr:
  assumes so: "strict_order ar" and co: "comparable ar ordered"
  shows "py_split_loop ar cs t ns j mj ml = Inr r \<Longrightarrow>
     (r = mj \<and>
      (\<forall>a \<in> set ns. \<forall>l. py_feature_loss ar cs t a = Inr (Some l) \<longrightarrow> \<not> num_less ar l ml))
   \<or> (\<exists>pre n post l. ns = pre @ n # post \<and> r = int (j + length pre) \<and>
         py_feature_loss ar cs t n = Inr (Some l) \<and> num_less ar l ml \<and>
         (\<forall>a \<in> set pre. \<forall>l'. py_feature_loss ar cs t a = Inr (Some l') \<longrightarrow>
            \<not> num_less ar l' l \<and> (ordered l' \<longrightarrow> num_less ar l l')) \<and>
         (\<forall>a \<in> set post. \<forall>l'. py_feature_loss ar cs t a = Inr (Some l') \<longrightarrow>
            \<not> num_less ar l' l))"
proof (induction ns arbitrary: j mj ml)
  case Nil
  then show ?case by simp
next
  case (Cons n ns)
  have irr: "\<And>a. \<not> num_less ar a a"
    and tr: "\<And>a b c. num_less ar a b \<Longrightarrow> num_less ar b c \<Longrightarrow> num_less ar a c"
    using so unfolding strict_order_def by blast+
  have cot: "\<And>a b c. ordered c \<Longrightarrow> num_less ar a b \<Longrightarrow> num_less ar a c \<or> num_less ar c b"
    using co unfolding comparable_def by blast
  show ?case
  proof (cases "py_feature_loss ar cs t n")
    case (Inl e)
    with Cons.prems show ?thesis by simp
  next
    case (Inr x)
    show ?thesis
    proof (cases x)
      case None
      with Inr Cons.prems have run: "py_split_loop ar cs t ns (Suc j) mj ml = Inr r" by simp
      from Cons.IH [OF run] show ?thesis
      proof (elim disjE conjE exE)
        assume "r = mj"
          "\<forall>a \<in> set ns. \<forall>l. py_feature_loss ar cs t a = Inr (Some l) \<longrightarrow> \<not> num_less ar l ml"
        with Inr None show ?thesis by auto
      next
        fix pre m post l
        assume h: "ns = pre @ m # post" "r = int (Suc j + length pre)"
          "py_feature_loss ar cs t m = Inr (Some l)" "num_less ar l ml"
          "\<forall>a \<in> set pre. \<forall>l'. py_feature_loss ar cs t a = Inr (Some l') \<longrightarrow>
             \<not> num_less ar l' l \<and> (ordered l' \<longrightarrow> num_less ar l l')"
          "\<forall>a \<in> set post. \<forall>l'. py_feature_loss ar cs t a = Inr (Some l') \<longrightarrow>
             \<not> num_less ar l' l"
        have "n # ns = (n # pre) @ m # post" using h(1) by simp
        moreover have "r = int (j + length (n # pre))" using h(2) by simp
        moreover have "\<forall>a \<in> set (n # pre). \<forall>l'. py_feature_loss ar cs t a = Inr (Some l') \<longrightarrow>
             \<not> num_less ar l' l \<and> (ordered l' \<longrightarrow> num_less ar l l')"
          using h(5) Inr None by auto
        ultimately show ?thesis using h(3,4,6) by blast
      qed
    next
      case (Some l0)
      show ?thesis
      proof (cases "num_less ar l0 ml")
        case True
        with Inr Some Cons.prems have run:
          "py_split_loop ar cs t ns (Suc j) (int j) l0 = Inr r" by simp
        from Cons.IH [OF run] show ?thesis
        proof (elim disjE conjE exE)
          assume a: "r = int j"
            "\<forall>a \<in> set ns. \<forall>l. py_feature_loss ar cs t a = Inr (Some l) \<longrightarrow> \<not> num_less ar l l0"
          have "n # ns = [] @ n # ns" by simp
          moreover have "r = int (j + length ([]::string list))" using a(1) by simp
          moreover have "\<forall>a \<in> set ([]::string list). \<forall>l'.
              py_feature_loss ar cs t a = Inr (Some l') \<longrightarrow>
              \<not> num_less ar l' l0 \<and> (ordered l' \<longrightarrow> num_less ar l0 l')"
            by simp
          ultimately show ?thesis using Inr Some True a(2) by blast
        next
          fix pre m post l
          assume h: "ns = pre @ m # post" "r = int (Suc j + length pre)"
            "py_feature_loss ar cs t m = Inr (Some l)" "num_less ar l l0"
            "\<forall>a \<in> set pre. \<forall>l'. py_feature_loss ar cs t a = Inr (Some l') \<longrightarrow>
               \<not> num_less ar l' l \<and> (ordered l' \<longrightarrow> num_less ar l l')"
            "\<forall>a \<in> set post. \<forall>l'. py_feature_loss ar cs t a = Inr (Some l') \<longrightarrow>
               \<not> num_less ar l' l"
          have "n # ns = (n # pre) @ m # post" using h(1) by simp
          moreover have "r = int (j + length (n # pre))" using h(2) by simp
          moreover have "num_less ar l ml" using h(4) True by (rule tr)
          moreover have "\<not> num_less ar l0 l" using h(4) irr tr by blast
          then have "\<forall>a \<in> set (n # pre). \<forall>l'. py_feature_loss ar cs t a = Inr (Some l') \<longrightarrow>
               \<not> num_less ar l' l \<and> (ordered l' \<longrightarrow> num_less ar l l')"
            using h(4,5) Inr Some by auto
          ultimately show ?thesis using h(3,6) by blast
        qed
      next
        case False
        with Inr Some Cons.prems have run: "py_split_loop ar cs t ns (Suc j) mj ml = Inr r"
          by simp
        from Cons.IH [OF run] show ?thesis
        proof (elim disjE conjE exE)
          assume "r = mj"
            "\<forall>a \<in> set ns. \<forall>l. py_feature_loss ar cs t a = Inr (Some l) \<longrightarrow> \<not> num_less ar l ml"
          with Inr Some False show ?thesis by auto
        next
          fix pre m post l
          assume h: "ns = pre @ m # post" "r = int (Suc j + length pre)"
            "py_feature_loss ar cs t m = Inr (Some l)" "num_less ar l ml"
            "\<forall>a \<in> set pre. \<forall>l'. py_feature_loss ar cs t a = Inr (Some l') \<longrightarrow>
               \<not> num_less ar l' l \<and> (ordered l' \<longrightarrow> num_less ar l l')"
            "\<forall>a \<in> set post. \<forall>l'. py_feature_loss ar cs t a = Inr (Some l') \<longrightarrow>
               \<not> num_less ar l' l"
          have "n # ns = (n # pre) @ m # post" using h(1) by simp
          moreover have "r = int (j + length (n # pre))" using h(2) by simp
          moreover have notless: "\<not> num_less ar l0 l" using h(4) False tr by blast
          moreover have "ordered l0 \<longrightarrow> num_less ar l l0" using cot h(4) False by blast
          with notless have "\<forall>a \<in> set (n # pre). \<forall>l'.
               py_feature_loss ar cs t a = Inr (Some l') \<longrightarrow>
               \<not> num_less ar l' l \<and> (ordered l' \<longrightarrow> num_less ar l l')"
            using h(5) Inr Some by auto
          ultimately show ?thesis using h(3,4,6) by blast
        qed
      qed
    qed
  qed
qed

lemma py_split_loop_total:
  "\<forall>a \<in> set ns. \<exists>x. py_feature_loss ar cs t a = Inr x \<Longrightarrow>
     \<exists>r. py_split_loop ar cs t ns j mj ml = Inr r"
proof (induction ns arbitrary: j mj ml)
  case Nil
  then show ?case by simp
next
  case (Cons n ns)
  then obtain x where x: "py_feature_loss ar cs t n = Inr x" by auto
  from Cons.prems have rest: "\<forall>a \<in> set ns. \<exists>x. py_feature_loss ar cs t a = Inr x" by simp
  show ?case
    using x Cons.IH [OF rest] by (cases x) auto
qed

lemma py_count_values_total:
  "list_all (hashable_feature n) cs \<Longrightarrow> \<exists>counts. py_count_values n cs acc = Inr counts"
  by (induction cs arbitrary: acc) (auto simp: hashable_feature_def split: option.splits)

lemma py_course_number_total:
  "list_all (hashable_feature n) cs \<Longrightarrow> \<exists>k. py_course_number ar n v s cs = Inr k"
  by (induction cs) (auto simp: hashable_feature_def)

lemma py_loss_loop_total:
  "list_all (hashable_feature n) allc \<Longrightarrow> list_all (hashable_feature n) cs \<Longrightarrow>
     \<exists>l. py_loss_loop ar n allc cs acc = Inr l"
proof (induction cs arbitrary: acc)
  case Nil
  then show ?case by simp
next
  case (Cons c cs)
  from Cons.prems obtain v where v: "map_of (scored_features c) n = Some v"
    by (auto simp: hashable_feature_def)
  from py_course_number_total [OF Cons.prems(1)] obtain k where
    k: "py_course_number ar n v (scored_score c) allc = Inr k" by blast
  from Cons.prems have "list_all (hashable_feature n) cs" by simp
  from Cons.IH [OF Cons.prems(1) this] v k show ?case by simp
qed

lemma py_feature_loss_total:
  assumes "list_all (hashable_feature n) cs" and "\<forall>x. \<exists>q. num_div ar x t = Inr q"
  shows "\<exists>x. py_feature_loss ar cs t n = Inr x"
proof -
  from py_count_values_total [OF assms(1)] obtain counts where
    c: "py_count_values n cs [] = Inr counts" by blast
  from py_loss_loop_total [OF assms(1) assms(1)] obtain l where
    l: "py_loss_loop ar n cs cs (num_zero ar) = Inr l" by blast
  from assms(2) obtain q where "num_div ar l t = Inr q" by blast
  with c l show ?thesis by (simp add: py_feature_loss_def)
qed

lemma strict_order_unrounded: "strict_order unrounded"
  unfolding strict_order_def
  by (auto simp: unrounded_def unrounded_less_irrefl intro: unrounded_less_trans)

lemma comparable_unrounded: "comparable unrounded (\<lambda>x. x \<noteq> NaN)"
  unfolding comparable_def
  by (auto simp: unrounded_def dest: unrounded_less_cotrans)

lemma split_courses_sum: "num_sum unrounded (map scored_score split_courses) = Fin 8"
  by (simp add: unrounded_def split_courses_def overflow_def)

lemma split_courses_losses:
  "py_feature_loss unrounded split_courses (Fin 8) ''a'' = Inr (Some (Fin (1 / 4)))"
  "py_feature_loss unrounded split_courses (Fin 8) ''b'' = Inr (Some (Fin (1 / 4)))"
  "py_feature_loss unrounded split_courses (Fin 8) ''c'' = Inr (Some (Fin 0))"
  "py_feature_loss unrounded split_courses (Fin 8) ''d'' = Inr (Some (Fin 0))"
  by (simp_all add: py_feature_loss_def py_non_trivial_choice_def unrounded_def
      split_courses_def overflow_def unrounded_div_def)

lemma split_courses_result:
  "py_decision_tree_split unrounded split_courses [''a'', ''b'', ''c'', ''d''] = Inr 2"
  by (simp add: py_decision_tree_split_def split_courses_sum split_courses_losses Let_def)
     (simp add: unrounded_def)

text \<open>
  C10. Let \<^verbatim>\<open><\<close> be irreflexive and transitive, as it is on floats, NaN included. A sum
  of scores below \<open>1e-3\<close> gives \<open>-1\<close>. When every course has every candidate attribute
  with a scalar value and the division by the sum of scores does not raise, the call
  returns. Whatever it returns is \<open>-1\<close> or an index into the candidate list. A returned
  index is that of a candidate that was not skipped and whose loss is below
  \<^verbatim>\<open>float('inf')\<close>; no candidate that was not skipped has a smaller loss, and the loss
  is smaller than the loss of every earlier candidate that was not skipped, NaN losses
  apart (NaN compares with nothing).
\<close>

theorem py_decision_tree_split_result:
  assumes so: "strict_order ar" and co: "comparable ar ordered"
  shows
  "(num_less ar (num_sum ar (map scored_score cs)) (num_threshold ar) \<longrightarrow>
      py_decision_tree_split ar cs ns = Inr (- 1)) \<and>
   ((\<forall>n \<in> set ns. list_all (hashable_feature n) cs) \<and>
    (\<forall>x. \<exists>q. num_div ar x (num_sum ar (map scored_score cs)) = Inr q) \<longrightarrow>
      (\<exists>r. py_decision_tree_split ar cs ns = Inr r)) \<and>
   (py_decision_tree_split ar cs ns = Inr r \<longrightarrow>
      (r = - 1 \<or> (0 \<le> r \<and> r < int (length ns))) \<and>
      (0 \<le> r \<longrightarrow>
         (\<exists>l. py_feature_loss ar cs (num_sum ar (map scored_score cs)) (ns ! nat r) =
                 Inr (Some l) \<and>
              num_less ar l (num_inf ar) \<and>
              (\<forall>k < length ns. \<forall>l'.
                 py_feature_loss ar cs (num_sum ar (map scored_score cs)) (ns ! k) =
                   Inr (Some l') \<longrightarrow>
                 \<not> num_less ar l' l \<and> (k < nat r \<and> ordered l' \<longrightarrow> num_less ar l l')))))"
proof (intro conjI impI)
  show "py_decision_tree_split ar cs ns = Inr (- 1)"
    if "num_less ar (num_sum ar (map scored_score cs)) (num_threshold ar)"
    using that by (simp add: py_decision_tree_split_def)
next
  let ?t = "num_sum ar (map scored_score cs)"
  assume wf: "(\<forall>n \<in> set ns. list_all (hashable_feature n) cs) \<and>
    (\<forall>x. \<exists>q. num_div ar x ?t = Inr q)"
  have "\<forall>a \<in> set ns. \<exists>x. py_feature_loss ar cs ?t a = Inr x"
  proof
    fix a assume "a \<in> set ns"
    with wf have "list_all (hashable_feature a) cs" by simp
    moreover from wf have "\<forall>x. \<exists>q. num_div ar x ?t = Inr q" by simp
    ultimately show "\<exists>x. py_feature_loss ar cs ?t a = Inr x"
      by (rule py_feature_loss_total)
  qed
  from py_split_loop_total [OF this] obtain r' where
    "py_split_loop ar cs ?t ns 0 (- 1) (num_inf ar) = Inr r'" by blast
  then show "\<exists>r. py_decision_tree_split ar cs ns = Inr r"
    by (simp add: py_decision_tree_split_def Let_def)
next
  assume run: "py_decision_tree_split ar cs ns = Inr r"
  let ?t = "num_sum ar (map scored_score cs)"
  let ?chosen = "\<exists>pre n post l. ns = pre @ n # post \<and> r = int (0 + length pre) \<and>
         py_feature_loss ar cs ?t n = Inr (Some l) \<and> num_less ar l (num_inf ar) \<and>
         (\<forall>a \<in> set pre. \<forall>l'. py_feature_loss ar cs ?t a = Inr (Some l') \<longrightarrow>
            \<not> num_less ar l' l \<and> (ordered l' \<longrightarrow> num_less ar l l')) \<and>
         (\<forall>a \<in> set post. \<forall>l'. py_feature_loss ar cs ?t a = Inr (Some l') \<longrightarrow>
            \<not> num_less ar l' l)"
  have cases: "r = - 1 \<or> ?chosen"
  proof (cases "num_less ar ?t (num_threshold ar)")
    case True
    with run show ?thesis by (simp add: py_decision_tree_split_def)
  next
    case False
    with run have "py_split_loop ar cs ?t ns 0 (- 1) (num_inf ar) = Inr r"
      by (simp add: py_decision_tree_split_def Let_def)
    from py_split_loop_Inr [OF so co this] show ?thesis by blast
  qed
  show "r = - 1 \<or> (0 \<le> r \<and> r < int (length ns))"
    using cases by auto
  show "\<exists>l. py_feature_loss ar cs ?t (ns ! nat r) = Inr (Some l) \<and>
              num_less ar l (num_inf ar) \<and>
              (\<forall>k < length ns. \<forall>l'.
                 py_feature_loss ar cs ?t (ns ! k) = Inr (Some l') \<longrightarrow>
                 \<not> num_less ar l' l \<and> (k < nat r \<and> ordered l' \<longrightarrow> num_less ar l l'))"
    if "0 \<le> r"
  proof -
    have irr: "\<And>a. \<not> num_less ar a a"
      using so unfolding strict_order_def by blast
    from cases that obtain pre n post l where
      ns: "ns = pre @ n # post" and r: "r = int (length pre)" and
      l: "py_feature_loss ar cs ?t n = Inr (Some l)" and
      fin: "num_less ar l (num_inf ar)" and
      before: "\<forall>a \<in> set pre. \<forall>l'. py_feature_loss ar cs ?t a = Inr (Some l') \<longrightarrow>
            \<not> num_less ar l' l \<and> (ordered l' \<longrightarrow> num_less ar l l')" and
      after: "\<forall>a \<in> set post. \<forall>l'. py_feature_loss ar cs ?t a = Inr (Some l') \<longrightarrow>
            \<not> num_less ar l' l"
      by auto
    have at: "ns ! nat r = n" using ns r by simp
    have "\<not> num_less ar l' l \<and> (k < nat r \<and> ordered l' \<longrightarrow> num_less ar l l')"
      if k: "k < length ns" and l': "py_feature_loss ar cs ?t (ns ! k) = Inr (Some l')"
      for k l'
    proof -
      consider "k < length pre" | "k = length pre" | "k > length pre" by linarith
      then show ?thesis
      proof cases
        case 1
        then have "ns ! k \<in> set pre" using ns by (simp add: nth_append)
        with before l' show ?thesis by blast
      next
        case 2
        with ns l l' have "l' = l" by simp
        with 2 r irr show ?thesis by simp
      next
        case 3
        then have "ns ! k = post ! (k - length pre - 1)"
          using ns by (simp add: nth_append nth_Cons')
        moreover have "k - length pre - 1 < length post" using 3 k ns by simp
        ultimately have "ns ! k \<in> set post" by simp
        with after l' have "\<not> num_less ar l' l" by blast
        with 3 r show ?thesis by simp
      qed
    qed
    with at l fin show ?thesis by blast
  qed
qed

theorem py_decision_tree_split_result_witness:
  "strict_order unrounded \<and> comparable unrounded (\<lambda>x. x \<noteq> NaN) \<and>
   num_less unrounded (num_sum unrounded (map scored_score ([] :: npfloat scored list)))
     (num_threshold unrounded) \<and>
   py_decision_tree_split unrounded [] [''a'', ''b'', ''c'', ''d''] = Inr (- 1) \<and>
   list_all (hashable_feature ''a'') split_courses \<and>
   list_all (hashable_feature ''b'') split_courses \<and>
   list_all (hashable_feature ''c'') split_courses \<and>
   list_all (hashable_feature ''d'') split_courses \<and>
   py_decision_tree_split unrounded split_courses [''a'', ''b'', ''c'', ''d''] = Inr 2 \<and>
   py_feature_loss unrounded split_courses
     (num_sum unrounded (map scored_score split_courses)) ''a'' = Inr (Some (Fin (1 / 4))) \<and>
   py_feature_loss unrounded split_courses
     (num_sum unrounded (map scored_score split_courses)) ''d'' = Inr (Some (Fin 0)) \<and>
   (\<exists>l. py_feature_loss unrounded split_courses
           (num_sum unrounded (map scored_score split_courses))
           ([''a'', ''b'', ''c'', ''d''] ! nat 2) = Inr (Some l) \<and>
        num_less unrounded l (num_inf unrounded) \<and>
        (\<forall>k < length [''a'', ''b'', ''c'', ''d'']. \<forall>l'.
           py_feature_loss unrounded split_courses
             (num_sum unrounded (map scored_score split_courses))
             ([''a'', ''b'', ''c'', ''d''] ! k) = Inr (Some l') \<longrightarrow>
           \<not> num_less unrounded l' l \<and>
           (k < nat 2 \<and> l' \<noteq> NaN \<longrightarrow> num_less unrounded l l')))"
proof -
  let ?ns = "[''a'', ''b'', ''c'', ''d'']"
  note so = strict_order_unrounded and co = comparable_unrounded
  have small: "num_less unrounded
      (num_sum unrounded (map scored_score ([] :: npfloat scored list)))
      (num_threshold unrounded)"
    by (simp add: unrounded_def)
  have wf: "list_all (hashable_feature ''a'') split_courses"
    "list_all (hashable_feature ''b'') split_courses"
    "list_all (hashable_feature ''c'') split_courses"
    "list_all (hashable_feature ''d'') split_courses"
    by (simp_all add: hashable_feature_def split_courses_def)
  have la: "py_feature_loss unrounded split_courses
     (num_sum unrounded (map scored_score split_courses)) ''a'' = Inr (Some (Fin (1 / 4)))"
    and ld: "py_feature_loss unrounded split_courses
     (num_sum unrounded (map scored_score split_courses)) ''d'' = Inr (Some (Fin 0))"
    by (simp_all add: split_courses_sum split_courses_losses)
  from py_decision_tree_split_result [OF so co, of "[]" ?ns] small
  have first: "py_decision_tree_split unrounded [] ?ns = Inr (- 1)"
    by blast
  from py_decision_tree_split_result [OF so co, of split_courses ?ns 2] split_courses_result
  have chosen:
    "\<exists>l. py_feature_loss unrounded split_courses
           (num_sum unrounded (map scored_score split_courses)) (?ns ! nat 2) =
           Inr (Some l) \<and>
        num_less unrounded l (num_inf unrounded) \<and>
        (\<forall>k < length ?ns. \<forall>l'.
           py_feature_loss unrounded split_courses
             (num_sum unrounded (map scored_score split_courses)) (?ns ! k) =
             Inr (Some l') \<longrightarrow>
           \<not> num_less unrounded l' l \<and>
           (k < nat 2 \<and> l' \<noteq> NaN \<longrightarrow> num_less unrounded l l'))"
    by simp
  from so co small first wf split_courses_result la ld chosen show ?thesis
    by blast
qed

section \<open>Normalising the preferences\<close>

lemma normalization_of_pos: "normalization_of p = Inr n \<Longrightarrow> 0 < n"
  by (auto simp: normalization_of_def Let_def split: if_splits)

lemma update_fresh: "k \<notin> fst ` set al \<Longrightarrow> AList.update k v al = al @ [(k, v)]"
  by (induction al) auto

lemma reorder_preferences_total:
  "\<forall>k \<in> set metas. map_of d k \<noteq> None \<Longrightarrow>
     \<exists>out. reorder_preferences metas d acc = Inr out \<and>
       (\<forall>k. map_of out k = (if k \<in> set metas then map_of d k else map_of acc k)) \<and>
       fst ` set out = set metas \<union> fst ` set acc \<and>
       (distinct (map fst acc) \<longrightarrow> distinct (map fst out))"
proof (induction metas arbitrary: acc)
  case Nil
  then show ?case by simp
next
  case (Cons key keys)
  from Cons.prems obtain v where v: "map_of d key = Some v" by auto
  from Cons.prems have rest: "\<forall>k \<in> set keys. map_of d k \<noteq> None" by simp
  from Cons.IH [OF rest, of "AList.update key v acc"] obtain out where
    run: "reorder_preferences keys d (AList.update key v acc) = Inr out" and
    look: "\<forall>k. map_of out k =
             (if k \<in> set keys then map_of d k else map_of (AList.update key v acc) k)" and
    dom: "fst ` set out = set keys \<union> fst ` set (AList.update key v acc)" and
    dist: "distinct (map fst (AList.update key v acc)) \<longrightarrow> distinct (map fst out)"
    by blast
  have "reorder_preferences (key # keys) d acc = Inr out" using v run by simp
  moreover have "\<forall>k. map_of out k = (if k \<in> set (key # keys) then map_of d k else map_of acc k)"
    using look v by (auto simp: AList.update_conv')
  moreover have "fst ` set out = set (key # keys) \<union> fst ` set acc"
    using dom by (auto simp: AList.dom_update)
  moreover have "distinct (map fst acc) \<longrightarrow> distinct (map fst out)"
    using dist by (simp add: AList.distinct_update)
  ultimately show ?case by blast
qed

lemma reorder_preferences_order:
  "reorder_preferences metas d acc = Inr out \<Longrightarrow> distinct metas \<Longrightarrow>
     set metas \<inter> fst ` set acc = {} \<Longrightarrow> map fst out = map fst acc @ metas"
proof (induction metas arbitrary: acc)
  case Nil
  then show ?case by simp
next
  case (Cons key keys)
  from Cons.prems(1) obtain v where v: "map_of d key = Some v" and
    run: "reorder_preferences keys d (AList.update key v acc) = Inr out"
    by (auto split: option.splits)
  from Cons.prems(3) have fresh: "key \<notin> fst ` set acc" by auto
  then have upd: "AList.update key v acc = acc @ [(key, v)]" by (rule update_fresh)
  have "set keys \<inter> fst ` set (AList.update key v acc) = {}"
    using Cons.prems(2,3) upd by auto
  from Cons.IH [OF run _ this] Cons.prems(2) upd show ?case by simp
qed

lemma py_update_preferences_quotients:
  "\<forall>v \<in> set (map snd prefs). num_div ar v t = Inr (q v) \<Longrightarrow>
     py_update_preferences ar t prefs = (None, map (\<lambda>(k, v). (k, q v)) prefs)"
  by (induction prefs) auto

lemma sum_values_distinct':
  "distinct (map fst xs) \<Longrightarrow>
     sum_list (map (\<lambda>(k, v). f v) xs) = (\<Sum>k \<in> fst ` set xs. f (the (map_of xs k)))"
proof (induction xs)
  case Nil
  then show ?case by simp
next
  case (Cons x xs)
  obtain a b where x: "x = (a, b)" by (cases x)
  from Cons.prems x have fresh: "a \<notin> fst ` set xs" and d: "distinct (map fst xs)"
    by auto
  have "(\<Sum>k \<in> fst ` set xs. f (the (map_of (x # xs) k))) =
        (\<Sum>k \<in> fst ` set xs. f (the (map_of xs k)))"
    by (rule sum.cong) (use fresh x in auto)
  with Cons.IH [OF d] fresh x show ?case by simp
qed

lemma sum_list_close:
  fixes f g :: "'a \<Rightarrow> real"
  shows "\<forall>v \<in> set vs. \<bar>f v - g v\<bar> \<le> e * g v \<Longrightarrow>
     \<bar>sum_list (map f vs) - sum_list (map g vs)\<bar> \<le> e * sum_list (map g vs)"
proof (induction vs)
  case Nil
  then show ?case by simp
next
  case (Cons v vs)
  then have "\<bar>f v - g v\<bar> \<le> e * g v"
    and "\<bar>sum_list (map f vs) - sum_list (map g vs)\<bar> \<le> e * sum_list (map g vs)"
    by simp_all
  then show ?case by (simp add: distrib_left)
qed

lemma normalised_sum_bound:
  fixes S T t e :: real
  assumes e: "0 \<le> e" "e \<le> 1 / (4 * 10 ^ 9)" and t: "0 < t"
    and tot: "\<bar>t - T\<bar> \<le> e * T" and quot: "\<bar>t * S - T\<bar> \<le> e * T"
  shows "\<bar>S - 1\<bar> \<le> 1 / 10 ^ 9"
proof -
  have e1: "e < 1" using e by simp
  have T: "0 < T"
  proof (rule ccontr)
    assume "\<not> 0 < T"
    then have "T \<le> 0" by simp
    then have "e * T \<le> 0" using e(1) by (simp add: mult_nonneg_nonpos)
    with tot have "t = T" by simp
    with t \<open>T \<le> 0\<close> show False by simp
  qed
  have up: "t * S \<le> (1 + e) * T" and lo: "(1 - e) * T \<le> t * S"
    using quot by (simp_all add: algebra_simps abs_le_iff)
  have tup: "t \<le> (1 + e) * T" and tlo: "(1 - e) * T \<le> t"
    using tot by (simp_all add: algebra_simps abs_le_iff)
  have "(1 - e) * (t * S) \<le> (1 - e) * ((1 + e) * T)"
    using up e1 by (intro mult_left_mono) simp_all
  also have "\<dots> = (1 + e) * ((1 - e) * T)" by simp
  also have "\<dots> \<le> (1 + e) * t"
    using tlo e(1) by (intro mult_left_mono) simp_all
  finally have "t * ((1 - e) * S) \<le> t * (1 + e)" by (simp add: mult_ac)
  with t have a: "(1 - e) * S \<le> 1 + e" by simp
  have "(1 + e) * ((1 - e) * T) \<le> (1 + e) * (t * S)"
    using lo e(1) by (intro mult_left_mono) simp_all
  moreover have "(1 - e) * t \<le> (1 - e) * ((1 + e) * T)"
    using tup e1 by (intro mult_left_mono) simp_all
  ultimately have "(1 - e) * t \<le> (1 + e) * (t * S)" by (simp add: mult_ac)
  then have "t * (1 - e) \<le> t * ((1 + e) * S)" by (simp add: mult_ac)
  with t have b: "1 - e \<le> (1 + e) * S" by simp
  have S0: "0 \<le> S"
  proof (rule ccontr)
    assume "\<not> 0 \<le> S"
    then have "S < 0" by simp
    then have "(1 + e) * S < 0" using e(1) by (simp add: mult_pos_neg)
    with b e1 show False by simp
  qed
  have eS: "e * S \<le> e * 2"
  proof -
    have "(1 - e) * S \<le> 1 + e" by (rule a)
    moreover have "1 / 2 * S \<le> (1 - e) * S"
      using S0 e by (intro mult_right_mono) simp_all
    ultimately have "S \<le> 2 * (1 + e)" by simp
    then have "S \<le> 4" using e by simp
    from a have "S \<le> 1 + e + e * S" by (simp add: algebra_simps)
    moreover have "e * S \<le> e * 4" using \<open>S \<le> 4\<close> e(1) by (intro mult_left_mono)
    ultimately have "S \<le> 2" using e by simp
    then show ?thesis using e(1) by (intro mult_left_mono)
  qed
  from a have "S - 1 \<le> e + e * S" by (simp add: algebra_simps)
  with eS e have upper: "S - 1 \<le> 1 / 10 ^ 9" by simp
  from b have "1 - S \<le> e + e * S" by (simp add: algebra_simps)
  with eS e have lower: "1 - S \<le> 1 / 10 ^ 9" by simp
  show ?thesis
  proof (rule abs_leI)
    show "S - 1 \<le> 1 / 10 ^ 9" by (rule upper)
    show "- (S - 1) \<le> 1 / 10 ^ 9" using lower by simp
  qed
qed

lemma scaled_quotient:
  fixes x a t e :: real
  assumes "0 < t" and "\<bar>x - a / t\<bar> \<le> e * (a / t)"
  shows "\<bar>t * x - a\<bar> \<le> e * a"
proof -
  have "t * x - a = t * (x - a / t)"
    using assms(1) by (simp add: right_diff_distrib)
  then have "\<bar>t * x - a\<bar> = t * \<bar>x - a / t\<bar>"
    using assms(1) by (simp add: abs_mult)
  also have "\<dots> \<le> t * (e * (a / t))"
    using assms by (intro mult_left_mono) simp_all
  also have "\<dots> = e * a" using assms(1) by simp
  finally show ?thesis .
qed

text \<open>
  C6, as stated, fails: the preferences \<open>{X: 2.0**1023, Y: 2.0**1023}\<close> have the keys
  X and Y and a sum that is not below \<open>1e-3\<close>; the sum overflows to infinity, both
  quotients are 0, and the normalised weights sum to 0.
\<close>

theorem overflowing_sum_not_normalised:
  "\<not> num_less unrounded (num_sum unrounded (map snd huge_preferences))
       (num_threshold unrounded) \<and>
   fst (py_normalize_preferences unrounded [''X'', ''Y''] huge_preferences) =
     Inr [(''X'', Fin 0), (''Y'', Fin 0)] \<and>
   sum_list (map finite_value [Fin 0, Fin 0]) = 0"
  by (simp add: py_normalize_preferences_def py_normalization_of_def huge_preferences_def
      unrounded_def overflow_def unrounded_div_def Let_def)

text \<open>
  C6, amended. When the keys of the preference dictionary are exactly the meta categories,
  the sum of the raw weights is not below \<open>1e-3\<close> and the divisions by it do not raise,
  the normalisation returns a dictionary over the meta categories, in their order when
  they are distinct, in which every weight is the quotient of the raw weight by the sum,
  as the interpreter computes both. The weights sum to 1 within \<open>1e-9\<close> when the
  computed sum is positive and the computed sum and quotients have a relative error of at
  most \<open>2.5e-10\<close>.
\<close>

theorem py_normalized_preferences:
  fixes val :: "'f \<Rightarrow> real" and e :: real and ar :: "'f arith"
  assumes d: "distinct (map fst prefs)"
    and keys: "set (map fst prefs) = set metas"
    and big: "\<not> num_less ar (num_sum ar (map snd prefs)) (num_threshold ar)"
    and quot: "\<forall>v \<in> set (map snd prefs).
                 num_div ar v (num_sum ar (map snd prefs)) = Inr (q v)"
  shows "\<exists>out. fst (py_normalize_preferences ar metas prefs) = Inr out \<and>
           set (map fst out) = set metas \<and>
           distinct (map fst out) \<and>
           (distinct metas \<longrightarrow> map fst out = metas) \<and>
           (\<forall>k \<in> set metas. map_of out k = Some (q (the (map_of prefs k)))) \<and>
           (0 \<le> e \<and> e \<le> 1 / (4 * 10 ^ 9) \<and>
            0 < val (num_sum ar (map snd prefs)) \<and>
            \<bar>val (num_sum ar (map snd prefs)) - sum_list (map val (map snd prefs))\<bar>
              \<le> e * sum_list (map val (map snd prefs)) \<and>
            (\<forall>v \<in> set (map snd prefs).
               \<bar>val (q v) - val v / val (num_sum ar (map snd prefs))\<bar>
                 \<le> e * (val v / val (num_sum ar (map snd prefs)))) \<longrightarrow>
              \<bar>sum_list (map (\<lambda>(k, w). val w) out) - 1\<bar> \<le> 1 / 10 ^ 9)"
proof -
  let ?t = "num_sum ar (map snd prefs)"
  let ?u = "map (\<lambda>(k, v). (k, q v)) prefs"
  have n: "py_normalization_of ar prefs = Inr ?t"
    using big by (simp add: py_normalization_of_def Let_def)
  have upd: "py_update_preferences ar ?t prefs = (None, ?u)"
    using quot by (rule py_update_preferences_quotients)
  have ku: "map fst ?u = map fst prefs" by (induction prefs) auto
  have mu: "map_of ?u k = map_option q (map_of prefs k)" for k
    by (simp add: map_of_map)
  have present: "\<forall>k \<in> set metas. map_of ?u k \<noteq> None"
  proof
    fix k assume "k \<in> set metas"
    with keys have "k \<in> fst ` set prefs" by auto
    then have "map_of prefs k \<noteq> None" by (simp add: map_of_eq_None_iff)
    then show "map_of ?u k \<noteq> None" by (simp add: mu)
  qed
  from reorder_preferences_total [OF present, of "[]"] obtain out where
    run: "reorder_preferences metas ?u [] = Inr out" and
    look: "\<forall>k. map_of out k = (if k \<in> set metas then map_of ?u k else None)" and
    dom: "fst ` set out = set metas" and
    dist: "distinct (map fst out)"
    by auto
  have res: "fst (py_normalize_preferences ar metas prefs) = Inr out"
    using n upd run by (simp add: py_normalize_preferences_def)
  have order: "map fst out = metas" if "distinct metas"
    using reorder_preferences_order [OF run that] by simp
  have val: "map_of out k = Some (q (the (map_of prefs k)))" if "k \<in> set metas" for k
  proof -
    from that keys have "k \<in> fst ` set prefs" by auto
    then obtain v where "map_of prefs k = Some v"
      by (metis map_of_eq_None_iff not_Some_eq)
    with look that show ?thesis by (simp add: mu)
  qed
  have acc: "\<bar>sum_list (map (\<lambda>(k, w). val w) out) - 1\<bar> \<le> 1 / 10 ^ 9"
    if h: "0 \<le> e \<and> e \<le> 1 / (4 * 10 ^ 9) \<and> 0 < val ?t \<and>
            \<bar>val ?t - sum_list (map val (map snd prefs))\<bar>
              \<le> e * sum_list (map val (map snd prefs)) \<and>
            (\<forall>v \<in> set (map snd prefs).
               \<bar>val (q v) - val v / val ?t\<bar> \<le> e * (val v / val ?t))"
  proof -
    let ?S = "sum_list (map (\<lambda>v. val (q v)) (map snd prefs))"
    let ?T = "sum_list (map val (map snd prefs))"
    have "sum_list (map (\<lambda>(k, w). val w) out) =
          (\<Sum>k \<in> fst ` set out. val (the (map_of out k)))"
      using dist by (rule sum_values_distinct')
    also have "\<dots> = (\<Sum>k \<in> fst ` set prefs. val (q (the (map_of prefs k))))"
    proof (rule sum.cong)
      show "fst ` set out = fst ` set prefs" using dom keys by simp
      show "val (the (map_of out k)) = val (q (the (map_of prefs k)))"
        if "k \<in> fst ` set prefs" for k
      proof -
        from that keys have "k \<in> set metas" by auto
        then show ?thesis by (simp add: val)
      qed
    qed
    also have "\<dots> = sum_list (map (\<lambda>(k, v). val (q v)) prefs)"
      using d by (rule sum_values_distinct' [symmetric])
    also have "\<dots> = ?S" by (induction prefs) auto
    finally have S: "sum_list (map (\<lambda>(k, w). val w) out) = ?S" .
    have "\<forall>v \<in> set (map snd prefs). \<bar>val ?t * val (q v) - val v\<bar> \<le> e * val v"
      using h by (auto intro!: scaled_quotient)
    from sum_list_close [OF this]
    have "\<bar>sum_list (map (\<lambda>v. val ?t * val (q v)) (map snd prefs)) - ?T\<bar> \<le> e * ?T" .
    moreover have "sum_list (map (\<lambda>v. val ?t * val (q v)) (map snd prefs)) = val ?t * ?S"
      by (rule sum_list_const_mult)
    ultimately have quotients: "\<bar>val ?t * ?S - ?T\<bar> \<le> e * ?T" by simp
    from h have "0 \<le> e" "e \<le> 1 / (4 * 10 ^ 9)" "0 < val ?t" "\<bar>val ?t - ?T\<bar> \<le> e * ?T"
      by simp_all
    from normalised_sum_bound [OF this quotients] S show ?thesis by simp
  qed
  from res dom dist order val acc show ?thesis by auto
qed

theorem py_normalized_preferences_witness:
  "distinct (map fst dyadic_preferences) \<and>
   set (map fst dyadic_preferences) = set [''IT'', ''Business'', ''Health''] \<and>
   \<not> num_less unrounded (num_sum unrounded (map snd dyadic_preferences))
       (num_threshold unrounded) \<and>
   num_sum unrounded (map snd dyadic_preferences) = Fin 2 \<and>
   fst (py_normalize_preferences unrounded [''IT'', ''Business'', ''Health'']
          dyadic_preferences) =
     Inr [(''IT'', Fin (1 / 4)), (''Business'', Fin (1 / 2)), (''Health'', Fin (1 / 4))] \<and>
   (\<exists>out. fst (py_normalize_preferences unrounded [''IT'', ''Business'', ''Health'']
                 dyadic_preferences) = Inr out \<and>
          set (map fst out) = set [''IT'', ''Business'', ''Health''] \<and>
          distinct (map fst out) \<and>
          map fst out = [''IT'', ''Business'', ''Health''] \<and>
          (\<forall>k \<in> set [''IT'', ''Business'', ''Health''].
             map_of out k =
               Some (unrounded_quotient (the (map_of dyadic_preferences k)) (Fin 2))) \<and>
          \<bar>sum_list (map (\<lambda>(k, w). finite_value w) out) - 1\<bar> \<le> 1 / 10 ^ 9)"
proof -
  let ?metas = "[''IT'', ''Business'', ''Health'']"
  let ?q = "\<lambda>v. unrounded_quotient v (Fin 2)"
  have d: "distinct (map fst dyadic_preferences)"
    by (simp add: dyadic_preferences_def)
  have k: "set (map fst dyadic_preferences) = set ?metas"
    by (auto simp: dyadic_preferences_def)
  have s: "num_sum unrounded (map snd dyadic_preferences) = Fin 2"
    by (simp add: dyadic_preferences_def unrounded_def overflow_def)
  have b: "\<not> num_less unrounded (num_sum unrounded (map snd dyadic_preferences))
       (num_threshold unrounded)"
    by (simp add: s) (simp add: unrounded_def)
  have qt: "\<forall>v \<in> set (map snd dyadic_preferences).
      num_div unrounded v (num_sum unrounded (map snd dyadic_preferences)) = Inr (?q v)"
    by (simp add: s) (simp add: unrounded_def unrounded_div_def)
  have r: "fst (py_normalize_preferences unrounded ?metas dyadic_preferences) =
     Inr [(''IT'', Fin (1 / 4)), (''Business'', Fin (1 / 2)), (''Health'', Fin (1 / 4))]"
    by (simp add: py_normalize_preferences_def py_normalization_of_def
        dyadic_preferences_def unrounded_def overflow_def unrounded_div_def Let_def)
  have acc: "(0::real) \<le> 0 \<and> (0::real) \<le> 1 / (4 * 10 ^ 9) \<and>
      0 < finite_value (num_sum unrounded (map snd dyadic_preferences)) \<and>
      \<bar>finite_value (num_sum unrounded (map snd dyadic_preferences)) -
         sum_list (map finite_value (map snd dyadic_preferences))\<bar>
        \<le> 0 * sum_list (map finite_value (map snd dyadic_preferences)) \<and>
      (\<forall>v \<in> set (map snd dyadic_preferences).
         \<bar>finite_value (?q v) -
            finite_value v / finite_value (num_sum unrounded (map snd dyadic_preferences))\<bar>
           \<le> 0 * (finite_value v /
                  finite_value (num_sum unrounded (map snd dyadic_preferences))))"
    by (simp add: s) (simp add: dyadic_preferences_def overflow_def)
  have dm: "distinct ?metas" by simp
  from py_normalized_preferences [OF d k b qt, where val = finite_value and e = 0]
  obtain out where
    o1: "fst (py_normalize_preferences unrounded ?metas dyadic_preferences) = Inr out" and
    o2: "set (map fst out) = set ?metas" and
    o3: "distinct (map fst out)" and
    o4: "distinct ?metas \<longrightarrow> map fst out = ?metas" and
    o5: "\<forall>k \<in> set ?metas.
           map_of out k = Some (?q (the (map_of dyadic_preferences k)))" and
    o6: "(0::real) \<le> 0 \<and> (0::real) \<le> 1 / (4 * 10 ^ 9) \<and>
      0 < finite_value (num_sum unrounded (map snd dyadic_preferences)) \<and>
      \<bar>finite_value (num_sum unrounded (map snd dyadic_preferences)) -
         sum_list (map finite_value (map snd dyadic_preferences))\<bar>
        \<le> 0 * sum_list (map finite_value (map snd dyadic_preferences)) \<and>
      (\<forall>v \<in> set (map snd dyadic_preferences).
         \<bar>finite_value (?q v) -
            finite_value v / finite_value (num_sum unrounded (map snd dyadic_preferences))\<bar>
           \<le> 0 * (finite_value v /
                  finite_value (num_sum unrounded (map snd dyadic_preferences)))) \<longrightarrow>
      \<bar>sum_list (map (\<lambda>(k, w). finite_value w) out) - 1\<bar> \<le> 1 / 10 ^ 9"
    by (elim exE conjE)
  from o4 dm have o4': "map fst out = ?metas" by (rule mp)
  from o6 acc have o6': "\<bar>sum_list (map (\<lambda>(k, w). finite_value w) out) - 1\<bar> \<le> 1 / 10 ^ 9"
    by (rule mp)
  from o1 o2 o3 o4' o5 o6'
  have "\<exists>out. fst (py_normalize_preferences unrounded ?metas dyadic_preferences) = Inr out \<and>
          set (map fst out) = set ?metas \<and>
          distinct (map fst out) \<and>
          map fst out = ?metas \<and>
          (\<forall>k \<in> set ?metas.
             map_of out k = Some (?q (the (map_of dyadic_preferences k)))) \<and>
          \<bar>sum_list (map (\<lambda>(k, w). finite_value w) out) - 1\<bar> \<le> 1 / 10 ^ 9"
    by (intro exI [of _ out] conjI)
  with d k b s r show ?thesis by blast
qed

section \<open>Scores of known and unknown courses\<close>

lemma rank_course_unknown:
  "\<not> known_course m c \<Longrightarrow> rank_course m weights c = Inr (unknown_crs c)"
  by (simp add: rank_course_def known_course_def)

lemma rank_course_id:
  "rank_course m weights c = Inr k \<Longrightarrow> crs_course_id k = course_id c"
  by (auto simp: rank_course_def unknown_crs_def split: if_splits option.splits sum.splits)

lemma rank_course_known_iff:
  "rank_course m weights c = Inr k \<Longrightarrow> known m k = known_course m c"
  by (simp add: known_def known_course_def rank_course_id)

lemma rank_loop_known_part:
  "rank_loop m weights (filter (known_course m) cs) =
     (case rank_loop m weights cs of Inl e \<Rightarrow> Inl e | Inr ks \<Rightarrow> Inr (filter (known m) ks))"
proof (induction cs)
  case Nil
  then show ?case by simp
next
  case (Cons c cs)
  show ?case
  proof (cases "known_course m c")
    case True
    show ?thesis
    proof (cases "rank_course m weights c")
      case (Inl e)
      with True show ?thesis by simp
    next
      case (Inr k)
      with True have "known m k" by (simp add: rank_course_known_iff)
      with True Inr Cons.IH show ?thesis by (simp split: sum.splits)
    qed
  next
    case False
    then have r: "rank_course m weights c = Inr (unknown_crs c)"
      by (rule rank_course_unknown)
    have "\<not> known m (unknown_crs c)"
      using False by (simp add: known_def known_course_def unknown_crs_def)
    with False r Cons.IH show ?thesis by (simp split: sum.splits)
  qed
qed

lemma rank_loop_Inr:
  "rank_loop m weights cs = Inr ks \<Longrightarrow>
     length ks = length cs \<and>
     (\<forall>c \<in> set cs. \<not> known_course m c \<longrightarrow> unknown_crs c \<in> set ks) \<and>
     (\<forall>k \<in> set ks. \<not> known m k \<longrightarrow> sim k = 0 \<and> score k = 0)"
proof (induction cs arbitrary: ks)
  case Nil
  then show ?case by simp
next
  case (Cons c cs)
  from Cons.prems obtain k ks' where
    k: "rank_course m weights c = Inr k" and
    rest: "rank_loop m weights cs = Inr ks'" and
    ks: "ks = k # ks'"
    by (auto split: sum.splits)
  have here: "\<not> known_course m c \<Longrightarrow> k = unknown_crs c"
    using k by (simp add: rank_course_unknown)
  have zero: "\<not> known m k \<Longrightarrow> sim k = 0 \<and> score k = 0"
  proof -
    assume "\<not> known m k"
    with k have "\<not> known_course m c" by (simp add: rank_course_known_iff)
    with here show ?thesis by (simp add: unknown_crs_def)
  qed
  from Cons.IH [OF rest] ks here zero show ?case by auto
qed

lemma sorted_split:
  "sorted (map f xs) \<Longrightarrow> \<forall>x \<in> set xs. P x \<longrightarrow> f x < (0::real) \<Longrightarrow>
     \<forall>x \<in> set xs. \<not> P x \<longrightarrow> f x = 0 \<Longrightarrow>
     xs = filter P xs @ filter (\<lambda>x. \<not> P x) xs"
proof (induction xs)
  case Nil
  then show ?case by simp
next
  case (Cons x xs)
  from Cons.prems have IH: "xs = filter P xs @ filter (\<lambda>x. \<not> P x) xs"
    by (intro Cons.IH) auto
  show ?case
  proof (cases "P x")
    case True
    with IH show ?thesis by simp
  next
    case False
    with Cons.prems have "f x = 0" by simp
    with Cons.prems(1) have "\<forall>y \<in> set xs. 0 \<le> f y" by auto
    with Cons.prems(2) have "\<forall>y \<in> set xs. \<not> P y" by fastforce
    then have "filter P xs = []" "filter (\<lambda>x. \<not> P x) xs = xs" by (auto simp: filter_empty_conv)
    with False show ?thesis by simp
  qed
qed

lemma rank_courses_Inr:
  "fst (rank_courses m cs prefs) = Inr ranked \<Longrightarrow>
     \<exists>normalized ks. fst (normalize_preferences (meta_categories m) prefs) = Inr normalized \<and>
        rank_loop m (map snd normalized) cs = Inr ks \<and> ranked = sort_by_score ks"
  by (auto simp: rank_courses_def split: prod.splits sum.splits)

lemma rank_courses_Inl:
  "fst (rank_courses m cs prefs) = Inl e \<Longrightarrow>
     fst (normalize_preferences (meta_categories m) prefs) = Inl e \<or>
     (\<exists>normalized. fst (normalize_preferences (meta_categories m) prefs) = Inr normalized \<and>
        rank_loop m (map snd normalized) cs = Inl e)"
  by (auto simp: rank_courses_def split: prod.splits sum.splits)

lemma accumulate_sim_Inr:
  "accumulate_sim ss ws acc = Inr s \<Longrightarrow> s = acc + dot ss ws \<and> length ss \<le> length ws"
  by (induction ss ws acc rule: accumulate_sim.induct) (auto simp: dot_def)

lemma accumulate_sim_total:
  "length ss \<le> length ws \<Longrightarrow> accumulate_sim ss ws acc = Inr (acc + dot ss ws)"
  by (induction ss ws acc rule: accumulate_sim.induct) (auto simp: dot_def)

lemma find_known:
  "find (\<lambda>d. course_id d = i) cs = Some mc \<Longrightarrow> i \<in> set (map course_id cs)"
  by (auto simp: find_Some_iff)

lemma rank_course_known:
  assumes "find (\<lambda>d. course_id d = course_id c) (courses m) = Some mc"
    and "length (Sim mc) \<le> length weights"
  shows "rank_course m weights c =
     Inr \<lparr>crs_course_id = course_id c, crs_name = name c, crs_features = features c,
          sim = dot (Sim mc) weights,
          score = LAMBDA * dot (Sim mc) weights + ln (real (count mc) + 1)\<rparr>"
  using assms find_known [OF assms(1)]
  by (simp add: rank_course_def accumulate_sim_total unknown_crs_def)

lemma rank_course_score:
  assumes "rank_course m weights c = Inr k"
    and "find (\<lambda>d. course_id d = crs_course_id k) (courses m) = Some mc"
  shows "sim k = dot (Sim mc) weights \<and> score k = LAMBDA * sim k + ln (real (count mc) + 1)"
proof -
  from assms(1) have id: "crs_course_id k = course_id c" by (rule rank_course_id)
  with assms(2) have f: "find (\<lambda>d. course_id d = course_id c) (courses m) = Some mc" by simp
  from find_known [OF f] have "course_id c \<in> set (map course_id (courses m))" .
  with assms(1) f obtain s where
    s: "accumulate_sim (Sim mc) weights 0 = Inr s" and
    k: "k = (unknown_crs c)\<lparr>sim := s, score := LAMBDA * s + ln (real (count mc) + 1)\<rparr>"
    by (auto simp: rank_course_def split: sum.splits)
  from accumulate_sim_Inr [OF s] k show ?thesis by simp
qed

lemma rank_loop_scores:
  "rank_loop m weights cs = Inr ks \<Longrightarrow> k \<in> set ks \<Longrightarrow>
     find (\<lambda>d. course_id d = crs_course_id k) (courses m) = Some mc \<Longrightarrow>
     sim k = dot (Sim mc) weights \<and> score k = LAMBDA * sim k + ln (real (count mc) + 1)"
proof (induction cs arbitrary: ks)
  case Nil
  then show ?case by simp
next
  case (Cons c cs)
  from Cons.prems(1) obtain k0 ks' where
    k0: "rank_course m weights c = Inr k0" and
    rest: "rank_loop m weights cs = Inr ks'" and
    ks: "ks = k0 # ks'"
    by (auto split: sum.splits)
  from Cons.prems(2) ks consider "k = k0" | "k \<in> set ks'" by auto
  then show ?case
  proof cases
    case 1
    with k0 Cons.prems(3) show ?thesis by (simp add: rank_course_score)
  next
    case 2
    from Cons.IH [OF rest 2 Cons.prems(3)] show ?thesis .
  qed
qed

lemma scenario_normalized:
  "normalize_preferences (meta_categories scenario_model) [(''X'', 1), (''Y'', 0)] =
     (Inr [(''X'', 1), (''Y'', 0)], [(''X'', 1), (''Y'', 0)])"
  by (simp add: normalize_preferences_def normalization_of_def update_preferences_def
      scenario_model_def Let_def)

lemma scenario_ranked:
  "rank_courses scenario_model [item_A, item_B] [(''X'', 1), (''Y'', 0)] =
     (Inr [ranked_A, ranked_B], [(''X'', 1), (''Y'', 0)])"
  "rank_courses scenario_model [item_B, item_A] [(''X'', 1), (''Y'', 0)] =
     (Inr [ranked_A, ranked_B], [(''X'', 1), (''Y'', 0)])"
  by (simp_all add: rank_defs scenario_defs LAMBDA_def not_LAMBDA_le LAMBDA_ge)

text \<open>
  C7. A course whose id the model does not have is ranked with \<open>sim = 0\<close> and
  \<open>score = 0\<close> and raises nothing: if the ranking raises, it raises the same without the
  unknown courses. When the ranking returns, it has one entry per course, the entries of
  the unknown courses among them; and when all known entries have a positive score, the
  known entries come first and the unknown entries last.
\<close>

theorem unknown_courses_rank_last:
  "(\<not> known_course m c \<longrightarrow> rank_course m weights c = Inr (unknown_crs c)) \<and>
   sim (unknown_crs c) = 0 \<and> score (unknown_crs c) = 0 \<and>
   (fst (rank_courses m cs prefs) = Inl e \<longrightarrow>
      fst (rank_courses m (filter (known_course m) cs) prefs) = Inl e) \<and>
   (fst (rank_courses m cs prefs) = Inr ranked \<longrightarrow>
      length ranked = length cs \<and>
      (\<forall>c \<in> set cs. \<not> known_course m c \<longrightarrow> unknown_crs c \<in> set ranked) \<and>
      (\<forall>k \<in> set ranked. \<not> known m k \<longrightarrow> sim k = 0 \<and> score k = 0) \<and>
      ((\<forall>k \<in> set ranked. known m k \<longrightarrow> 0 < score k) \<longrightarrow>
         ranked = filter (known m) ranked @ filter (\<lambda>k. \<not> known m k) ranked))"
proof (intro conjI impI)
  show "rank_course m weights c = Inr (unknown_crs c)" if "\<not> known_course m c"
    using that by (rule rank_course_unknown)
  show "sim (unknown_crs c) = 0" "score (unknown_crs c) = 0"
    by (simp_all add: unknown_crs_def)
next
  assume err: "fst (rank_courses m cs prefs) = Inl e"
  from rank_courses_Inl [OF err]
  show "fst (rank_courses m (filter (known_course m) cs) prefs) = Inl e"
  proof (elim disjE exE conjE)
    assume "fst (normalize_preferences (meta_categories m) prefs) = Inl e"
    then show ?thesis by (auto simp: rank_courses_def split: prod.splits sum.splits)
  next
    fix normalized
    assume n: "fst (normalize_preferences (meta_categories m) prefs) = Inr normalized"
      and l: "rank_loop m (map snd normalized) cs = Inl e"
    from l have "rank_loop m (map snd normalized) (filter (known_course m) cs) = Inl e"
      by (simp add: rank_loop_known_part)
    with n show ?thesis by (auto simp: rank_courses_def split: prod.splits sum.splits)
  qed
next
  assume ok: "fst (rank_courses m cs prefs) = Inr ranked"
  from rank_courses_Inr [OF ok] obtain normalized :: "real dict" and ks where
    l: "rank_loop m (map snd normalized) cs = Inr ks" and
    r: "ranked = sort_by_score ks"
    by blast
  have s: "set ranked = set ks" "length ranked = length ks"
    using r by (simp_all add: sort_by_score_def)
  from rank_loop_Inr [OF l] s
  show "length ranked = length cs"
    "\<forall>c \<in> set cs. \<not> known_course m c \<longrightarrow> unknown_crs c \<in> set ranked"
    "\<forall>k \<in> set ranked. \<not> known m k \<longrightarrow> sim k = 0 \<and> score k = 0"
    by simp_all
  then have zero: "\<forall>k \<in> set ranked. \<not> known m k \<longrightarrow> - score k = 0" by simp
  have sorted: "sorted (map (\<lambda>k. - score k) ranked)"
    using r by (simp add: sort_by_score_def)
  show "ranked = filter (known m) ranked @ filter (\<lambda>k. \<not> known m k) ranked"
    if "\<forall>k \<in> set ranked. known m k \<longrightarrow> 0 < score k"
  proof (rule sorted_split [OF sorted _ zero])
    show "\<forall>k \<in> set ranked. known m k \<longrightarrow> - score k < 0" using that by simp
  qed
qed

lemma stranger_ranked:
  "rank_courses scenario_model [stranger, item_B, item_A] [(''X'', 1), (''Y'', 0)] =
     (Inr [ranked_A, ranked_B, unknown_crs stranger], [(''X'', 1), (''Y'', 0)])"
  by (simp add: rank_defs scenario_defs stranger_def LAMBDA_def not_LAMBDA_le LAMBDA_ge)

theorem unknown_courses_rank_last_witness:
  "\<not> known_course scenario_model stranger \<and>
   rank_course scenario_model [1, 0] stranger = Inr (unknown_crs stranger) \<and>
   fst (rank_courses scenario_model [stranger, item_B, item_A] []) = Inl ZeroDivisionError \<and>
   fst (rank_courses scenario_model
          (filter (known_course scenario_model) [stranger, item_B, item_A]) []) =
     Inl ZeroDivisionError \<and>
   fst (rank_courses scenario_model [stranger, item_B, item_A] [(''X'', 1), (''Y'', 0)]) =
     Inr [ranked_A, ranked_B, unknown_crs stranger] \<and>
   0 < score ranked_A \<and> 0 < score ranked_B \<and>
   unknown_crs stranger \<in> set [ranked_A, ranked_B, unknown_crs stranger] \<and>
   [ranked_A, ranked_B, unknown_crs stranger] =
     filter (known scenario_model) [ranked_A, ranked_B, unknown_crs stranger] @
     filter (\<lambda>k. \<not> known scenario_model k) [ranked_A, ranked_B, unknown_crs stranger]"
proof -
  let ?cs = "[stranger, item_B, item_A]"
  let ?ranked = "[ranked_A, ranked_B, unknown_crs stranger]"
  have u: "\<not> known_course scenario_model stranger"
    by (simp add: known_course_def scenario_defs stranger_def)
  have e: "fst (rank_courses scenario_model ?cs []) = Inl ZeroDivisionError"
    by (simp add: rank_courses_def normalize_preferences_def normalization_of_def)
  have r: "fst (rank_courses scenario_model ?cs [(''X'', 1), (''Y'', 0)]) = Inr ?ranked"
    by (simp add: stranger_ranked)
  have p: "0 < score ranked_A" "0 < score ranked_B"
    by (simp_all add: ranked_A_def ranked_B_def LAMBDA_def)
  have pos: "\<forall>k \<in> set ?ranked. known scenario_model k \<longrightarrow> 0 < score k"
    using p by (simp add: known_def unknown_crs_def stranger_def scenario_defs)
  have s: "stranger \<in> set ?cs" by simp
  note t1 = unknown_courses_rank_last
    [of scenario_model stranger "[1, 0]" ?cs "[]" ZeroDivisionError ?ranked]
  note t2 = unknown_courses_rank_last
    [of scenario_model stranger "[1, 0]" ?cs "[(''X'', 1), (''Y'', 0)]" ZeroDivisionError ?ranked]
  from t1 u e have a: "rank_course scenario_model [1, 0] stranger = Inr (unknown_crs stranger)"
    and b: "fst (rank_courses scenario_model (filter (known_course scenario_model) ?cs) []) =
      Inl ZeroDivisionError"
    by blast+
  from t2 r u s have c: "unknown_crs stranger \<in> set ?ranked" by blast
  from t2 r pos have d: "?ranked = filter (known scenario_model) ?ranked @
     filter (\<lambda>k. \<not> known scenario_model k) ?ranked" by blast
  from u a e b r p c d show ?thesis by blast
qed

text \<open>
  C5. \<open>LAMBDA\<close> is \<open>10 * ln 10\<close>. A course found in the model is ranked with the dot
  product of its similarity vector and the weights as \<open>sim\<close> and with
  \<open>LAMBDA * sim + ln (count + 1)\<close> as \<open>score\<close>; in a ranking the weights are the
  normalised preferences in the order of the meta categories. In the scenario, A scores
  \<open>LAMBDA\<close>, B scores \<open>ln 101\<close>, and the ranked order is A, B for either input order.
\<close>

theorem score_formula:
  "LAMBDA = 10 * ln 10 \<and>
   (find (\<lambda>d. course_id d = course_id c) (courses m) = Some mc \<and>
    length (Sim mc) \<le> length weights \<longrightarrow>
      rank_course m weights c =
        Inr \<lparr>crs_course_id = course_id c, crs_name = name c, crs_features = features c,
             sim = dot (Sim mc) weights,
             score = LAMBDA * dot (Sim mc) weights + ln (real (count mc) + 1)\<rparr>) \<and>
   (fst (normalize_preferences (meta_categories m) prefs) = Inr normalized \<and>
    fst (rank_courses m cs prefs) = Inr ranked \<and> k \<in> set ranked \<and>
    find (\<lambda>d. course_id d = crs_course_id k) (courses m) = Some mc' \<longrightarrow>
      sim k = dot (Sim mc') (map snd normalized) \<and>
      score k = LAMBDA * sim k + ln (real (count mc') + 1)) \<and>
   fst (normalize_preferences (meta_categories scenario_model) [(''X'', 1), (''Y'', 0)]) =
     Inr [(''X'', 1), (''Y'', 0)] \<and>
   fst (rank_courses scenario_model [item_A, item_B] [(''X'', 1), (''Y'', 0)]) =
     Inr [ranked_A, ranked_B] \<and>
   fst (rank_courses scenario_model [item_B, item_A] [(''X'', 1), (''Y'', 0)]) =
     Inr [ranked_A, ranked_B] \<and>
   score ranked_A = LAMBDA \<and> score ranked_B = ln 101 \<and> score ranked_B < score ranked_A"
proof (intro conjI impI)
  show "LAMBDA = 10 * ln 10" by (simp add: LAMBDA_def)
  show "rank_course m weights c =
        Inr \<lparr>crs_course_id = course_id c, crs_name = name c, crs_features = features c,
             sim = dot (Sim mc) weights,
             score = LAMBDA * dot (Sim mc) weights + ln (real (count mc) + 1)\<rparr>"
    if "find (\<lambda>d. course_id d = course_id c) (courses m) = Some mc \<and>
        length (Sim mc) \<le> length weights"
    using that by (simp add: rank_course_known)
  show "fst (normalize_preferences (meta_categories scenario_model) [(''X'', 1), (''Y'', 0)]) =
     Inr [(''X'', 1), (''Y'', 0)]"
    by (simp add: scenario_normalized)
  show "fst (rank_courses scenario_model [item_A, item_B] [(''X'', 1), (''Y'', 0)]) =
     Inr [ranked_A, ranked_B]"
    "fst (rank_courses scenario_model [item_B, item_A] [(''X'', 1), (''Y'', 0)]) =
     Inr [ranked_A, ranked_B]"
    by (simp_all add: scenario_ranked)
  show "score ranked_A = LAMBDA" "score ranked_B = ln 101" "score ranked_B < score ranked_A"
    by (simp_all add: ranked_A_def ranked_B_def LAMBDA_def ln_101_less)
next
  assume h: "fst (normalize_preferences (meta_categories m) prefs) = Inr normalized \<and>
    fst (rank_courses m cs prefs) = Inr ranked \<and> k \<in> set ranked \<and>
    find (\<lambda>d. course_id d = crs_course_id k) (courses m) = Some mc'"
  then have ok: "fst (rank_courses m cs prefs) = Inr ranked" by simp
  from rank_courses_Inr [OF ok] h obtain ks where
    l: "rank_loop m (map snd normalized) cs = Inr ks" and
    r: "ranked = sort_by_score ks"
    by auto
  from h r have "k \<in> set ks" by (simp add: sort_by_score_def)
  from rank_loop_scores [OF l this] h
  show "sim k = dot (Sim mc') (map snd normalized)"
    "score k = LAMBDA * sim k + ln (real (count mc') + 1)"
    by simp_all
qed

theorem score_formula_witness:
  "find (\<lambda>d. course_id d = course_id item_B) (courses scenario_model) = Some item_B \<and>
   length (Sim item_B) \<le> length [1, 0 :: real] \<and>
   rank_course scenario_model [1, 0] item_B =
     Inr \<lparr>crs_course_id = course_id item_B, crs_name = name item_B,
          crs_features = features item_B, sim = dot (Sim item_B) [1, 0],
          score = LAMBDA * dot (Sim item_B) [1, 0] + ln (real (count item_B) + 1)\<rparr> \<and>
   fst (normalize_preferences (meta_categories scenario_model) [(''X'', 1), (''Y'', 0)]) =
     Inr [(''X'', 1), (''Y'', 0)] \<and>
   fst (rank_courses scenario_model [item_B, item_A] [(''X'', 1), (''Y'', 0)]) =
     Inr [ranked_A, ranked_B] \<and>
   ranked_B \<in> set [ranked_A, ranked_B] \<and>
   find (\<lambda>d. course_id d = crs_course_id ranked_B) (courses scenario_model) = Some item_B \<and>
   sim ranked_B = dot (Sim item_B) (map snd [(''X'', 1 :: real), (''Y'', 0)]) \<and>
   score ranked_B = LAMBDA * sim ranked_B + ln (real (count item_B) + 1)"
proof -
  have f: "find (\<lambda>d. course_id d = course_id item_B) (courses scenario_model) = Some item_B"
    by (simp add: scenario_defs)
  have f': "find (\<lambda>d. course_id d = crs_course_id ranked_B) (courses scenario_model) = Some item_B"
    by (simp add: scenario_defs)
  have len: "length (Sim item_B) \<le> length [1, 0 :: real]"
    by (simp add: item_B_def)
  have mem: "ranked_B \<in> set [ranked_A, ranked_B]" by simp
  note t = score_formula [of item_B scenario_model item_B "[1, 0]" "[(''X'', 1), (''Y'', 0)]"
      "[(''X'', 1), (''Y'', 0)]" "[item_B, item_A]" "[ranked_A, ranked_B]" ranked_B item_B]
  from t f f' len mem show ?thesis by blast
qed

section \<open>Rescaling a similarity channel\<close>

lemma fle_trans: "fle x y \<Longrightarrow> fle y z \<Longrightarrow> fle x z"
  by (cases x; cases y; cases z) auto

lemma fle_refl: "v \<noteq> NaN \<Longrightarrow> fle v v"
  by (cases v) auto

lemma fle_antisym: "fle x y \<Longrightarrow> fle y x \<Longrightarrow> x = y"
  by (cases x; cases y) auto

lemma fmin2_not_NaN: "x \<noteq> NaN \<or> y \<noteq> NaN \<Longrightarrow> fmin2 x y \<noteq> NaN"
  by (cases x; cases y) auto

lemma fmin2_lower: "x \<noteq> NaN \<Longrightarrow> fle (fmin2 x y) x" "y \<noteq> NaN \<Longrightarrow> fle (fmin2 x y) y"
  by (cases x; cases y; auto)+

lemma fmax2_not_NaN: "x \<noteq> NaN \<or> y \<noteq> NaN \<Longrightarrow> fmax2 x y \<noteq> NaN"
  by (cases x; cases y) auto

lemma fmax2_upper: "x \<noteq> NaN \<Longrightarrow> fle x (fmax2 x y)" "y \<noteq> NaN \<Longrightarrow> fle y (fmax2 x y)"
  by (cases x; cases y; auto)+

lemma foldl_fmin2_lower:
  "v \<in> set (acc # xs) \<Longrightarrow> v \<noteq> NaN \<Longrightarrow> fle (foldl fmin2 acc xs) v"
proof (induction xs arbitrary: acc v)
  case Nil
  then show ?case by (simp add: fle_refl)
next
  case (Cons x xs)
  have step: "fle (foldl fmin2 (fmin2 acc x) xs) (fmin2 acc x)" if "acc \<noteq> NaN \<or> x \<noteq> NaN"
    using Cons.IH [of "fmin2 acc x" "fmin2 acc x"] fmin2_not_NaN [OF that] by simp
  from Cons.prems(1) consider "v = acc" | "v = x" | "v \<in> set xs" by auto
  then show ?case
  proof cases
    case 1
    with Cons.prems(2) step fmin2_lower(1) [of acc x] show ?thesis
      by (auto intro: fle_trans)
  next
    case 2
    with Cons.prems(2) step fmin2_lower(2) [of x acc] show ?thesis
      by (auto intro: fle_trans)
  next
    case 3
    with Cons.IH [of v "fmin2 acc x"] Cons.prems(2) show ?thesis by simp
  qed
qed

lemma foldl_fmax2_upper:
  "v \<in> set (acc # xs) \<Longrightarrow> v \<noteq> NaN \<Longrightarrow> fle v (foldl fmax2 acc xs)"
proof (induction xs arbitrary: acc v)
  case Nil
  then show ?case by (simp add: fle_refl)
next
  case (Cons x xs)
  have step: "fle (fmax2 acc x) (foldl fmax2 (fmax2 acc x) xs)" if "acc \<noteq> NaN \<or> x \<noteq> NaN"
    using Cons.IH [of "fmax2 acc x" "fmax2 acc x"] fmax2_not_NaN [OF that] by simp
  from Cons.prems(1) consider "v = acc" | "v = x" | "v \<in> set xs" by auto
  then show ?case
  proof cases
    case 1
    with Cons.prems(2) step fmax2_upper(1) [of acc x] show ?thesis
      by (auto intro: fle_trans)
  next
    case 2
    with Cons.prems(2) step fmax2_upper(2) [of x acc] show ?thesis
      by (auto intro: fle_trans)
  next
    case 3
    with Cons.IH [of v "fmax2 acc x"] Cons.prems(2) show ?thesis by simp
  qed
qed

lemma rescale_zero_width: "v = NaN \<or> v = b \<Longrightarrow> rescale b b v = NaN"
  by (cases b; cases v) (auto simp: rescale_def)

lemma rescale_Fin:
  "h \<noteq> l \<Longrightarrow> rescale (Fin l) (Fin h) (Fin x) = Fin ((x - l) / (h - l))"
  by (simp add: rescale_def)

lemma zero_width_channel:
  assumes lo: "nanmin a = Inr b" and hi: "nanmax a = Inr b"
    and v: "v \<in> set (concat a)"
  shows "rescale b b v = NaN"
proof -
  from lo obtain x xs where c: "concat a = x # xs" and l: "b = foldl fmin2 x xs"
    by (auto simp: nanmin_def split: list.splits)
  from hi c have h: "b = foldl fmax2 x xs"
    by (auto simp: nanmax_def)
  have "v = NaN \<or> v = b"
  proof (cases "v = NaN")
    case True
    then show ?thesis by simp
  next
    case False
    from v c have "v \<in> set (x # xs)" by simp
    from foldl_fmin2_lower [OF this False] foldl_fmax2_upper [OF this False] l h
    have "fle b v" "fle v b" by simp_all
    then show ?thesis by (simp add: fle_antisym)
  qed
  then show ?thesis by (rule rescale_zero_width)
qed

lemma normalize_channel_total:
  assumes "concat a \<noteq> []"
  shows "\<exists>lo hi. nanmin a = Inr lo \<and> nanmax a = Inr hi \<and>
           normalize_channel a = Inr (map (map (rescale lo hi)) a)"
proof -
  from assms obtain x xs where c: "concat a = x # xs" by (cases "concat a") auto
  then show ?thesis
    by (simp add: normalize_channel_def nanmin_def nanmax_def)
qed

text \<open>
  C4, as stated, fails: for the channel of zeros the minimum equals the maximum, the
  division is \<open>0/0\<close> and every entry of the rescaled channel is NaN, not zero.
\<close>

theorem zero_width_channel_is_NaN:
  "nanmin zero_channel = Inr (Fin 0) \<and> nanmax zero_channel = Inr (Fin 0) \<and>
   normalize_channel zero_channel = Inr [[NaN, NaN], [NaN, NaN]] \<and>
   normalize_channel zero_channel \<noteq> Inr [[Fin 0, Fin 0], [Fin 0, Fin 0]]"
  by (simp add: zero_channel_def normalize_channel_def nanmin_def nanmax_def rescale_def)

text \<open>
  C4, amended. An entry \<open>x\<close> of a channel with finite bounds \<open>l \<noteq> h\<close> becomes
  \<open>(x - l) / (h - l)\<close>. A channel with at least one entry is rescaled, without an
  exception, entry by entry with its own NaN-ignoring minimum and maximum; there is no
  guard for a zero-width range: when the maximum equals the minimum, every entry of the
  rescaled channel is NaN. The three channels are rescaled independently of each other.
\<close>

theorem channel_rescaled_without_guard:
  "(h \<noteq> l \<longrightarrow> rescale (Fin l) (Fin h) (Fin x) = Fin ((x - l) / (h - l))) \<and>
   (concat a \<noteq> [] \<longrightarrow>
      (\<exists>lo hi. nanmin a = Inr lo \<and> nanmax a = Inr hi \<and>
         normalize_channel a = Inr (map (map (rescale lo hi)) a) \<and>
         (lo = hi \<longrightarrow> (\<forall>row \<in> set a. \<forall>v \<in> set row. rescale lo hi v = NaN)))) \<and>
   (concat a \<noteq> [] \<and> concat b \<noteq> [] \<and> concat c \<noteq> [] \<longrightarrow>
      (\<exists>a' b' c'. normalize_channel a = Inr a' \<and> normalize_channel b = Inr b' \<and>
         normalize_channel c = Inr c' \<and> normalize_channels [a, b, c] = Inr [a', b', c']))"
proof (intro conjI impI)
  show "rescale (Fin l) (Fin h) (Fin x) = Fin ((x - l) / (h - l))" if "h \<noteq> l"
    using that by (rule rescale_Fin)
next
  assume ne: "concat a \<noteq> []"
  from normalize_channel_total [OF ne] obtain lo hi where
    r: "nanmin a = Inr lo" "nanmax a = Inr hi"
      "normalize_channel a = Inr (map (map (rescale lo hi)) a)"
    by blast
  have "\<forall>row \<in> set a. \<forall>v \<in> set row. rescale lo hi v = NaN" if "lo = hi"
  proof (intro ballI)
    fix row v assume "row \<in> set a" "v \<in> set row"
    then have "v \<in> set (concat a)" by auto
    with r that show "rescale lo hi v = NaN" by (simp add: zero_width_channel)
  qed
  with r show "\<exists>lo hi. nanmin a = Inr lo \<and> nanmax a = Inr hi \<and>
         normalize_channel a = Inr (map (map (rescale lo hi)) a) \<and>
         (lo = hi \<longrightarrow> (\<forall>row \<in> set a. \<forall>v \<in> set row. rescale lo hi v = NaN))"
    by blast
next
  assume ne: "concat a \<noteq> [] \<and> concat b \<noteq> [] \<and> concat c \<noteq> []"
  from ne normalize_channel_total [of a] obtain a' where a: "normalize_channel a = Inr a'"
    by blast
  from ne normalize_channel_total [of b] obtain b' where b: "normalize_channel b = Inr b'"
    by blast
  from ne normalize_channel_total [of c] obtain c' where c: "normalize_channel c = Inr c'"
    by blast
  from a b c have "normalize_channels [a, b, c] = Inr [a', b', c']" by simp
  with a b c show "\<exists>a' b' c'. normalize_channel a = Inr a' \<and> normalize_channel b = Inr b' \<and>
         normalize_channel c = Inr c' \<and> normalize_channels [a, b, c] = Inr [a', b', c']"
    by blast
qed

lemma name_channel_normalized:
  "normalize_channel name_channel = Inr [[Fin 1, Fin 0], [Fin (1 / 2), Fin (3 / 4)]]"
  by (simp add: name_channel_def normalize_channel_def nanmin_def nanmax_def rescale_def)

theorem channel_rescaled_without_guard_witness:
  "(1::real) \<noteq> 0 \<and> rescale (Fin 0) (Fin 1) (Fin (1 / 4)) = Fin ((1 / 4 - 0) / (1 - 0)) \<and>
   concat zero_channel \<noteq> [] \<and> concat name_channel \<noteq> [] \<and>
   nanmin zero_channel = nanmax zero_channel \<and>
   normalize_channel zero_channel = Inr [[NaN, NaN], [NaN, NaN]] \<and>
   normalize_channel name_channel = Inr [[Fin 1, Fin 0], [Fin (1 / 2), Fin (3 / 4)]] \<and>
   (\<exists>lo hi. nanmin zero_channel = Inr lo \<and> nanmax zero_channel = Inr hi \<and>
      normalize_channel zero_channel = Inr (map (map (rescale lo hi)) zero_channel) \<and>
      (lo = hi \<longrightarrow> (\<forall>row \<in> set zero_channel. \<forall>v \<in> set row. rescale lo hi v = NaN))) \<and>
   (\<exists>a' b' c'. normalize_channel zero_channel = Inr a' \<and>
      normalize_channel zero_channel = Inr b' \<and> normalize_channel name_channel = Inr c' \<and>
      normalize_channels [zero_channel, zero_channel, name_channel] = Inr [a', b', c'])"
proof -
  have ne: "concat zero_channel \<noteq> []" "concat name_channel \<noteq> []"
    by (simp_all add: zero_channel_def name_channel_def)
  have eq: "nanmin zero_channel = nanmax zero_channel"
    by (simp add: zero_channel_def nanmin_def nanmax_def)
  have z: "normalize_channel zero_channel = Inr [[NaN, NaN], [NaN, NaN]]"
    by (simp add: zero_channel_def normalize_channel_def nanmin_def nanmax_def rescale_def)
  have one: "(1::real) \<noteq> 0" by simp
  note t1 = channel_rescaled_without_guard
    [of 1 0 "1 / 4" zero_channel zero_channel name_channel]
  from t1 one ne eq z name_channel_normalized show ?thesis by blast
qed

end
